theory Spec2Isabelle
  imports Complex_Main
begin

section \<open>Numerical kernels of the wave-simulation notebooks\<close>

text \<open>
  The notebooks (finite elements W7, spectral elements W9, pseudospectral methods W5) are
  straight-line NumPy scripts.  They are embedded as follows.
  \<^item> Python integers are \<^typ>\<open>int\<close>; loop ranges \<open>range(a, b)\<close> are the lists \<open>[a..b - 1]\<close>.
  \<^item> NumPy floating-point numbers are idealised as \<^typ>\<open>real\<close>: every arithmetic
    operation is the exact one.  One-dimensional arrays are lists, two-dimensional arrays are
    lists of rows.
  \<^item> Indexing follows Python: a negative index counts from the end (\<open>get\<close>, \<open>put\<close>).
    An index outside the array raises \<open>IndexError\<close> in Python; the theorems below
    carry the shape conditions under which every index of the source is inside its array.
  \<^item> Rebinding of a variable (\<open>uold, u = u, unew\<close>) is a record update, a loop is a
    \<open>fold\<close> of its body over the range.
\<close>

subsection \<open>Arrays\<close>

type_synonym vec = "real list"
type_synonym mat = "real list list"

definition py_range :: "int \<Rightarrow> int \<Rightarrow> int list" where
  "py_range a b = [a..b - 1]"

definition pos :: "'a list \<Rightarrow> int \<Rightarrow> nat" where
  \<comment> \<open>the position a Python index denotes\<close>
  "pos xs i = (if i < 0 then nat (int (length xs) + i) else nat i)"

definition get :: "'a list \<Rightarrow> int \<Rightarrow> 'a" where
  "get xs i = xs ! pos xs i"

definition put :: "'a list \<Rightarrow> int \<Rightarrow> 'a \<Rightarrow> 'a list" where
  "put xs i v = xs[pos xs i := v]"

definition get2 :: "'a list list \<Rightarrow> int \<Rightarrow> int \<Rightarrow> 'a" where
  "get2 A i j = get (get A i) j"

definition put2 :: "'a list list \<Rightarrow> int \<Rightarrow> int \<Rightarrow> 'a \<Rightarrow> 'a list list" where
  "put2 A i j v = put A i (put (get A i) j v)"

definition zeros :: "int \<Rightarrow> vec" where
  "zeros n = replicate (nat n) 0"

definition zeros2 :: "int \<Rightarrow> int \<Rightarrow> mat" where
  "zeros2 n m = replicate (nat n) (zeros m)"

definition vadd :: "vec \<Rightarrow> vec \<Rightarrow> vec" where
  "vadd a b = map2 (+) a b"

definition vsub :: "vec \<Rightarrow> vec \<Rightarrow> vec" where
  "vsub a b = map2 (-) a b"

definition vmul :: "vec \<Rightarrow> vec \<Rightarrow> vec" where
  "vmul a b = map2 (*) a b"

definition vdiv :: "vec \<Rightarrow> vec \<Rightarrow> vec" where
  "vdiv a b = map2 (/) a b"

definition smul :: "real \<Rightarrow> vec \<Rightarrow> vec" where
  "smul c a = map (\<lambda>x. c * x) a"

definition muls :: "vec \<Rightarrow> real \<Rightarrow> vec" where
  "muls a c = map (\<lambda>x. x * c) a"

definition divs :: "vec \<Rightarrow> real \<Rightarrow> vec" where
  "divs a c = map (\<lambda>x. x / c) a"

definition smulm :: "real \<Rightarrow> mat \<Rightarrow> mat" where
  "smulm c A = map (smul c) A"

definition dot :: "vec \<Rightarrow> vec \<Rightarrow> real" where
  "dot a b = sum_list (vmul a b)"

definition matvec :: "mat \<Rightarrow> vec \<Rightarrow> vec" where
  \<comment> \<open>\<open>A @ v\<close>\<close>
  "matvec A v = map (\<lambda>row. dot row v) A"

definition ones :: "int \<Rightarrow> vec" where
  \<comment> \<open>\<open>np.ones(n)\<close>\<close>
  "ones n = replicate (nat n) 1"

definition total :: "mat \<Rightarrow> real" where
  \<comment> \<open>the sum of all entries, \<open>np.sum(M)\<close>\<close>
  "total A = sum_list (map sum_list A)"

definition square :: "nat \<Rightarrow> 'a list list \<Rightarrow> bool" where
  "square n A = (length A = n \<and> list_all (\<lambda>row. length row = n) A)"

subsection \<open>The generic time loop\<close>

text \<open>\<open>for it in range(nt): body\<close>\<close>

definition time_loop :: "(int \<Rightarrow> 's \<Rightarrow> 's) \<Rightarrow> int \<Rightarrow> 's \<Rightarrow> 's" where
  "time_loop body nt s = fold body (py_range 0 nt) s"

text \<open>\<open>math.ceil(nt/idisp)\<close>, the number of rows allocated for the snapshots.\<close>

definition n_snapshots :: "int \<Rightarrow> int \<Rightarrow> int" where
  "n_snapshots nt idisp = \<lceil>real_of_int nt / real_of_int idisp\<rceil>"

subsection \<open>Spectral elements (W9): source injection and time extrapolation\<close>

text \<open>
  Both spectral-element notebooks run the same loop:
  \<^verbatim>\<open>
  for it in range(nt):
      f = np.zeros(ng)
      if it < len(src):
          f[isrc-1] = src[it-1]
      unew = dt**2 * Minv @ (f - K @ u) + 2 * u - uold
      uold, u = u, unew
      if it % idisp == 0:
          u_results[int(it/idisp), :] = u
  \<close>
  In \<open>dt**2 * Minv @ x\<close> the operators \<open>*\<close> and \<open>@\<close> have the same precedence and
  associate to the left: the matrix is scaled first.  When \<open>it % idisp == 0\<close> the quotient
  \<open>it/idisp\<close> is an integer, so \<open>int(it/idisp)\<close> is \<open>it div idisp\<close>.
\<close>

record se_state =
  se_uold :: vec
  se_u :: vec
  se_unew :: vec
  se_f :: vec
  se_u_results :: mat

definition se_force :: "int \<Rightarrow> int \<Rightarrow> vec \<Rightarrow> int \<Rightarrow> vec" where
  "se_force ng isrc src it =
     (let f = zeros ng in
      if it < int (length src) then put f (isrc - 1) (get src (it - 1)) else f)"

definition se_body ::
  "real \<Rightarrow> mat \<Rightarrow> mat \<Rightarrow> int \<Rightarrow> int \<Rightarrow> vec \<Rightarrow> int \<Rightarrow> int \<Rightarrow> se_state \<Rightarrow> se_state" where
  "se_body dt Minv K ng isrc src idisp it s =
     (let f = se_force ng isrc src it;
          unew = vsub (vadd (matvec (smulm (dt ^ 2) Minv) (vsub f (matvec K (se_u s))))
                            (smul 2 (se_u s)))
                      (se_uold s);
          s1 = s\<lparr>se_f := f, se_unew := unew\<rparr>;
          s2 = s1\<lparr>se_uold := se_u s1, se_u := se_unew s1\<rparr>
      in if it mod idisp = 0
         then s2\<lparr>se_u_results := put (se_u_results s2) (it div idisp) (se_u s2)\<rparr>
         else s2)"

definition se_init :: "int \<Rightarrow> int \<Rightarrow> int \<Rightarrow> se_state" where
  \<comment> \<open>\<open>u = np.zeros(ng); uold = u; unew = u; f = u\<close> and the allocation of \<open>u_results\<close>\<close>
  "se_init ng nt idisp =
     \<lparr>se_uold = zeros ng, se_u = zeros ng, se_unew = zeros ng, se_f = zeros ng,
      se_u_results = zeros2 (n_snapshots nt idisp) ng\<rparr>"

definition se_run ::
  "real \<Rightarrow> mat \<Rightarrow> mat \<Rightarrow> int \<Rightarrow> int \<Rightarrow> vec \<Rightarrow> int \<Rightarrow> int \<Rightarrow> int \<Rightarrow> se_state" where
  \<comment> \<open>the state after the first \<open>n\<close> iterations of a run of \<open>nt\<close> steps\<close>
  "se_run dt Minv K ng isrc src idisp nt n =
     time_loop (se_body dt Minv K ng isrc src idisp) n (se_init ng nt idisp)"

text \<open>
  The loop of the heterogeneous notebook additionally collects the field of every step,
  \<open>x_t.append(u)\<close>, right after the rotation of the time levels.
\<close>

definition se_hetero_body ::
  "real \<Rightarrow> mat \<Rightarrow> mat \<Rightarrow> int \<Rightarrow> int \<Rightarrow> vec \<Rightarrow> int \<Rightarrow> int \<Rightarrow> se_state \<times> mat \<Rightarrow> se_state \<times> mat" where
  "se_hetero_body dt Minv K ng isrc src idisp it sx =
     (let s' = se_body dt Minv K ng isrc src idisp it (fst sx)
      in (s', snd sx @ [se_u s']))"

definition se_hetero_run ::
  "real \<Rightarrow> mat \<Rightarrow> mat \<Rightarrow> int \<Rightarrow> int \<Rightarrow> vec \<Rightarrow> int \<Rightarrow> int \<Rightarrow> int \<Rightarrow> se_state \<times> mat" where
  "se_hetero_run dt Minv K ng isrc src idisp nt n =
     time_loop (se_hetero_body dt Minv K ng isrc src idisp) n (se_init ng nt idisp, [])"

subsection \<open>Finite elements (W7): time extrapolation\<close>

text \<open>
  \<^verbatim>\<open>
  for it in range(nt):
      unew = (dt**2) * Minv @ (f*src[it]  -  K @ u) + 2*u - uold
      uold, u = u, unew
      pnew = (dt**2) * Mfd @ ( f/dx*src[it]+ D @ p) + 2*p - pold
      pold, p = p, pnew
      if it % idisp == 0:
          u_results[int(it/idisp), :] = u
          p_results[int(it/idisp), :] = p
  \<close>
  Here \<open>f\<close> is the fixed spatial source vector and \<open>src\<close> the source time function.
\<close>

record fe_state =
  fe_uold :: vec
  fe_u :: vec
  fe_unew :: vec
  fe_pold :: vec
  fe_p :: vec
  fe_pnew :: vec
  fe_u_results :: mat
  fe_p_results :: mat

definition fe_body ::
  "real \<Rightarrow> real \<Rightarrow> mat \<Rightarrow> mat \<Rightarrow> mat \<Rightarrow> mat \<Rightarrow> vec \<Rightarrow> vec \<Rightarrow> int \<Rightarrow> int \<Rightarrow> fe_state \<Rightarrow> fe_state" where
  "fe_body dt dx Minv K Mfd D f src idisp it s =
     (let unew = vsub (vadd (matvec (smulm (dt ^ 2) Minv)
                                    (vsub (muls f (get src it)) (matvec K (fe_u s))))
                            (smul 2 (fe_u s)))
                      (fe_uold s);
          s1 = s\<lparr>fe_unew := unew\<rparr>;
          s2 = s1\<lparr>fe_uold := fe_u s1, fe_u := fe_unew s1\<rparr>;
          pnew = vsub (vadd (matvec (smulm (dt ^ 2) Mfd)
                                    (vadd (muls (divs f dx) (get src it)) (matvec D (fe_p s2))))
                            (smul 2 (fe_p s2)))
                      (fe_pold s2);
          s3 = s2\<lparr>fe_pnew := pnew\<rparr>;
          s4 = s3\<lparr>fe_pold := fe_p s3, fe_p := fe_pnew s3\<rparr>
      in if it mod idisp = 0
         then s4\<lparr>fe_u_results := put (fe_u_results s4) (it div idisp) (fe_u s4),
                 fe_p_results := put (fe_p_results s4) (it div idisp) (fe_p s4)\<rparr>
         else s4)"

definition fe_init :: "int \<Rightarrow> int \<Rightarrow> int \<Rightarrow> fe_state" where
  "fe_init nx nt idisp =
     \<lparr>fe_uold = zeros nx, fe_u = zeros nx, fe_unew = zeros nx,
      fe_pold = zeros nx, fe_p = zeros nx, fe_pnew = zeros nx,
      fe_u_results = zeros2 (n_snapshots nt idisp) nx,
      fe_p_results = zeros2 (n_snapshots nt idisp) nx\<rparr>"

definition fe_run ::
  "real \<Rightarrow> real \<Rightarrow> mat \<Rightarrow> mat \<Rightarrow> mat \<Rightarrow> mat \<Rightarrow> vec \<Rightarrow> vec \<Rightarrow> int \<Rightarrow> int \<Rightarrow> int \<Rightarrow> int \<Rightarrow> fe_state" where
  "fe_run dt dx Minv K Mfd D f src idisp nx nt n =
     time_loop (fe_body dt dx Minv K Mfd D f src idisp) n (fe_init nx nt idisp)"

subsection \<open>Finite elements (W7): mass and stiffness matrix\<close>

text \<open>
  \<^verbatim>\<open>
  M = np.zeros((nx,nx), dtype=float)
  for i in range(1, nx-1):
      for j in range (1, nx-1):
          if j==i:
              M[i,j] = (ro[i-1]*h[i-1] + ro[i]*h[i])/3
          elif j==i+1:
              M[i,j] = ro[i]*h[i]/6
          elif j==i-1:
              M[i,j] = ro[i-1]*h[i-1]/6
          else:
              M[i,j] = 0
  M[0,0] = ro[0]*h[0]/3
  M[nx-1,nx-1] = ro[nx-1]*h[nx-2]/3
  \<close>
\<close>

definition fe_M_cell :: "vec \<Rightarrow> vec \<Rightarrow> int \<Rightarrow> int \<Rightarrow> mat \<Rightarrow> mat" where
  "fe_M_cell ro h i j M =
     (if j = i then put2 M i j ((get ro (i - 1) * get h (i - 1) + get ro i * get h i) / 3)
      else if j = i + 1 then put2 M i j (get ro i * get h i / 6)
      else if j = i - 1 then put2 M i j (get ro (i - 1) * get h (i - 1) / 6)
      else put2 M i j 0)"

definition fe_M :: "int \<Rightarrow> vec \<Rightarrow> vec \<Rightarrow> mat" where
  "fe_M nx ro h =
     (let M = zeros2 nx nx;
          M = fold (\<lambda>i. fold (fe_M_cell ro h i) (py_range 1 (nx - 1))) (py_range 1 (nx - 1)) M;
          M = put2 M 0 0 (get ro 0 * get h 0 / 3);
          M = put2 M (nx - 1) (nx - 1) (get ro (nx - 1) * get h (nx - 2) / 3)
      in M)"

text \<open>
  \<^verbatim>\<open>
  K = np.zeros((nx,nx), dtype=float)
  for i in range(1, nx-1):
      for j in range(1, nx-1):
          if i==j:
              K[i,j] = mu[i-1]/h[i-1] + mu[i]/h[i]
          elif i==j+1:
              K[i,j] = -mu[i-1]/h[i-1]
          elif i+1==j:
              K[i,j] = -mu[i]/h[i]
          else:
              K[i,j] = 0
  K[0,0] = mu[0]/h[0]
  K[nx-1,nx-1] = mu[nx-1]/h[nx-2]
  \<close>
\<close>

definition fe_K_cell :: "vec \<Rightarrow> vec \<Rightarrow> int \<Rightarrow> int \<Rightarrow> mat \<Rightarrow> mat" where
  "fe_K_cell mu h i j K =
     (if i = j then put2 K i j (get mu (i - 1) / get h (i - 1) + get mu i / get h i)
      else if i = j + 1 then put2 K i j (- get mu (i - 1) / get h (i - 1))
      else if i + 1 = j then put2 K i j (- get mu i / get h i)
      else put2 K i j 0)"

definition fe_K :: "int \<Rightarrow> vec \<Rightarrow> vec \<Rightarrow> mat" where
  "fe_K nx mu h =
     (let K = zeros2 nx nx;
          K = fold (\<lambda>i. fold (fe_K_cell mu h i) (py_range 1 (nx - 1))) (py_range 1 (nx - 1)) K;
          K = put2 K 0 0 (get mu 0 / get h 0);
          K = put2 K (nx - 1) (nx - 1) (get mu (nx - 1) / get h (nx - 2))
      in K)"

text \<open>
  The grid of the notebook: \<open>x = np.arange(0, nx)*dx\<close>, \<open>h = np.diff(x)\<close>,
  \<open>ro = x*0 + ro0\<close>, \<open>mu = x*0 + ro*vs**2\<close>.
\<close>

definition arange_scaled :: "int \<Rightarrow> real \<Rightarrow> vec" where
  "arange_scaled nx dx = map (\<lambda>i. real_of_int i * dx) (py_range 0 nx)"

definition diff :: "vec \<Rightarrow> vec" where
  "diff x = map (\<lambda>i. x ! Suc i - x ! i) [0..<length x - 1]"

definition fe_ro :: "int \<Rightarrow> real \<Rightarrow> real \<Rightarrow> vec" where
  "fe_ro nx dx ro0 = map (\<lambda>xi. xi * 0 + ro0) (arange_scaled nx dx)"

definition fe_mu :: "int \<Rightarrow> real \<Rightarrow> real \<Rightarrow> real \<Rightarrow> vec" where
  "fe_mu nx dx ro0 vs = vadd (map (\<lambda>xi. xi * 0) (arange_scaled nx dx)) (muls (fe_ro nx dx ro0) (vs ^ 2))"

subsection \<open>Spectral elements (W9): mass matrix\<close>

text \<open>
  Homogeneous notebook.  The diagonal mass matrix is stored as a vector, allocated with
  \<open>2*ng\<close> entries.
  \<^verbatim>\<open>
  for i in range(0, N+1):
      Me[i] = rho * w[i] * J
  k = -1
  ng = (ne-1)*N + N + 1
  M = np.zeros(2*ng)
  for i in range(1, ne+1):
      for j in range(0, N+1):
          k = k + 1
          if i>1:
              if j==0:
                  k = k - 1
          M[k] = M[k] + Me[j]
  \<close>
\<close>

definition se_ng :: "int \<Rightarrow> int \<Rightarrow> int" where
  "se_ng N ne = (ne - 1) * N + N + 1"

definition se_homo_Me :: "real \<Rightarrow> vec \<Rightarrow> real \<Rightarrow> int \<Rightarrow> vec" where
  "se_homo_Me rho w J N =
     fold (\<lambda>i Me. put Me i (rho * get w i * J)) (py_range 0 (N + 1)) (zeros (N + 1))"

definition se_M_add :: "vec \<Rightarrow> int \<Rightarrow> int \<Rightarrow> int \<times> vec \<Rightarrow> int \<times> vec" where
  \<comment> \<open>the body of the loop over \<open>j\<close>; the state is \<open>(k, M)\<close>\<close>
  "se_M_add Me i j kM =
     (let k = fst kM + 1;
          k = (if i > 1 then (if j = 0 then k - 1 else k) else k)
      in (k, put (snd kM) k (get (snd kM) k + get Me j)))"

definition se_homo_M :: "real \<Rightarrow> vec \<Rightarrow> real \<Rightarrow> int \<Rightarrow> int \<Rightarrow> vec" where
  "se_homo_M rho w J N ne =
     (let Me = se_homo_Me rho w J N;
          k = - 1;
          ng = se_ng N ne;
          M = zeros (2 * ng)
      in snd (fold (\<lambda>i. fold (se_M_add Me i) (py_range 0 (N + 1))) (py_range 1 (ne + 1)) (k, M)))"

text \<open>
  Heterogeneous notebook: the density is an array over the grid points, and the elemental
  mass is recomputed for every element.
  \<^verbatim>\<open>
  k = -1
  m = -1
  ng = (ne-1)*N + N + 1
  M = np.zeros(2*ng)
  for i in range(1, ne+1):
      for l in range(0, N+1):
          m += 1
          Me[l] = rho[m] * w[l] * J
      m -= 1
      for j in range(0, N+1):
          k = k + 1
          if i>1:
              if j==0:
                  k = k - 1
          M[k] = M[k] + Me[j]
  \<close>
\<close>

definition se_hetero_Me_set :: "vec \<Rightarrow> vec \<Rightarrow> real \<Rightarrow> int \<Rightarrow> int \<times> vec \<Rightarrow> int \<times> vec" where
  \<comment> \<open>the body of the loop over \<open>l\<close>; the state is \<open>(m, Me)\<close>\<close>
  "se_hetero_Me_set rho w J l mMe =
     (let m = fst mMe + 1
      in (m, put (snd mMe) l (get rho m * get w l * J)))"

definition se_hetero_M_elem ::
  "vec \<Rightarrow> vec \<Rightarrow> real \<Rightarrow> int \<Rightarrow> int \<Rightarrow> (int \<times> vec) \<times> (int \<times> vec) \<Rightarrow> (int \<times> vec) \<times> (int \<times> vec)" where
  \<comment> \<open>the body of the loop over the elements; the state is \<open>((m, Me), (k, M))\<close>\<close>
  "se_hetero_M_elem rho w J N i st =
     (let mMe = fold (se_hetero_Me_set rho w J) (py_range 0 (N + 1)) (fst st);
          mMe = (fst mMe - 1, snd mMe);
          kM = fold (se_M_add (snd mMe) i) (py_range 0 (N + 1)) (snd st)
      in (mMe, kM))"

definition se_hetero_M :: "vec \<Rightarrow> vec \<Rightarrow> real \<Rightarrow> int \<Rightarrow> int \<Rightarrow> vec" where
  "se_hetero_M rho w J N ne =
     (let k = - 1;
          m = - 1;
          ng = se_ng N ne;
          M = zeros (2 * ng)
      in snd (snd (fold (se_hetero_M_elem rho w J N) (py_range 1 (ne + 1))
                        ((m, zeros (N + 1)), (k, M)))))"

text \<open>
  The inverse of the diagonal mass matrix, in both notebooks.
  \<^verbatim>\<open>
  Minv = np.identity(ng)
  for i in range(0,ng):
      Minv[i,i] = 1./M[i]
  \<close>
\<close>

definition identity :: "int \<Rightarrow> mat" where
  "identity n = map (\<lambda>i. map (\<lambda>j. if i = j then 1 else 0) (py_range 0 n)) (py_range 0 n)"

definition se_Minv :: "vec \<Rightarrow> int \<Rightarrow> mat" where
  "se_Minv M ng =
     (let Minv = identity ng
      in fold (\<lambda>i Minv. put2 Minv i i (1 / get M i)) (py_range 0 ng) Minv)"

subsection \<open>Spectral elements (W9): stiffness matrix\<close>

text \<open>
  Homogeneous notebook: one elemental matrix, accumulated into the zero-initialised \<open>Ke\<close>;
  the global matrix is filled by assigning the element blocks and then patching the entries
  shared by two elements.
  \<^verbatim>\<open>
  for i in range(0, N+1):
      for j in range(0, N+1):
          for k in range(0, N+1):
              Ke[i,j] = Ke[i,j] + mu*w[k]*Ji*l1d[i,k]*l1d[j,k]
  K = np.zeros([ng, ng])
  for k in range(1,ne+1):
      i0 = (k-1)*N + 1
      j0 = i0
      for i in range(-1,N):
          for j in range(-1,N):
              K[i0+i,j0+j] = Ke[i+1,j+1]
  for k in range(2,ne+1):
      i0 = (k - 1)*N
      j0 = i0
      K[i0,j0] = Ke[0,0] + Ke[N,N]
  \<close>
\<close>

definition se_homo_Ke :: "real \<Rightarrow> vec \<Rightarrow> real \<Rightarrow> mat \<Rightarrow> int \<Rightarrow> mat" where
  "se_homo_Ke mu w Ji l1d N =
     fold (\<lambda>i. fold (\<lambda>j. fold (\<lambda>k Ke.
             put2 Ke i j (get2 Ke i j + mu * get w k * Ji * get2 l1d i k * get2 l1d j k))
           (py_range 0 (N + 1))) (py_range 0 (N + 1))) (py_range 0 (N + 1))
          (zeros2 (N + 1) (N + 1))"

definition se_homo_block :: "mat \<Rightarrow> int \<Rightarrow> int \<Rightarrow> mat \<Rightarrow> mat" where
  "se_homo_block Ke N k K =
     (let i0 = (k - 1) * N + 1;
          j0 = i0
      in fold (\<lambda>i. fold (\<lambda>j K. put2 K (i0 + i) (j0 + j) (get2 Ke (i + 1) (j + 1)))
                 (py_range (- 1) N)) (py_range (- 1) N) K)"

definition se_homo_patch :: "mat \<Rightarrow> int \<Rightarrow> int \<Rightarrow> mat \<Rightarrow> mat" where
  "se_homo_patch Ke N k K =
     (let i0 = (k - 1) * N;
          j0 = i0
      in put2 K i0 j0 (get2 Ke 0 0 + get2 Ke N N))"

definition se_homo_K :: "mat \<Rightarrow> int \<Rightarrow> int \<Rightarrow> mat" where
  "se_homo_K Ke N ne =
     (let ng = se_ng N ne;
          K = zeros2 ng ng;
          K = fold (se_homo_block Ke N) (py_range 1 (ne + 1)) K;
          K = fold (se_homo_patch Ke N) (py_range 2 (ne + 1)) K
      in K)"

text \<open>
  Heterogeneous notebook: the elemental matrix is recomputed for every element from the
  shear modulus at its grid points and added to the global matrix.
  \<^verbatim>\<open>
  K = np.zeros([ng, ng])
  xe = 0
  for e in range(1, ne + 1):
      i0 = (e - 1)*N + 1
      j0 = i0
      for i in range(-1, N):
          for j in range(-1, N):
              sum = 0
              for k in range(-1, N):
                  sum = sum + mu[k+1+xe] * w[k+1] * Ji**2 * J * l1d[i+1,k+1] * l1d[j+1,k+1]
              Ke[i+1, j+1] = sum
      xe += N
      for i in range(-1,N):
          for j in range(-1, N):
              K[i0+i, j0+j] += Ke[i+1, j+1]
  \<close>
\<close>

definition se_hetero_Ke :: "vec \<Rightarrow> vec \<Rightarrow> real \<Rightarrow> real \<Rightarrow> mat \<Rightarrow> int \<Rightarrow> int \<Rightarrow> mat \<Rightarrow> mat" where
  "se_hetero_Ke mu w Ji J l1d N xe Ke =
     fold (\<lambda>i. fold (\<lambda>j Ke.
             (let sum = 0;
                  sum = fold (\<lambda>k sum. sum + get mu (k + 1 + xe) * get w (k + 1) * Ji ^ 2 * J
                                          * get2 l1d (i + 1) (k + 1) * get2 l1d (j + 1) (k + 1))
                             (py_range (- 1) N) sum
              in put2 Ke (i + 1) (j + 1) sum))
           (py_range (- 1) N)) (py_range (- 1) N) Ke"

definition se_hetero_add_block :: "mat \<Rightarrow> int \<Rightarrow> int \<Rightarrow> int \<Rightarrow> mat \<Rightarrow> mat" where
  "se_hetero_add_block Ke N i0 j0 K =
     fold (\<lambda>i. fold (\<lambda>j K. put2 K (i0 + i) (j0 + j) (get2 K (i0 + i) (j0 + j) + get2 Ke (i + 1) (j + 1)))
            (py_range (- 1) N)) (py_range (- 1) N) K"

record se_hetero_K_state =
  hk_K :: mat
  hk_Ke :: mat
  hk_xe :: int

definition se_hetero_K_elem ::
  "vec \<Rightarrow> vec \<Rightarrow> real \<Rightarrow> real \<Rightarrow> mat \<Rightarrow> int \<Rightarrow> int \<Rightarrow> se_hetero_K_state \<Rightarrow> se_hetero_K_state" where
  "se_hetero_K_elem mu w Ji J l1d N e s =
     (let i0 = (e - 1) * N + 1;
          j0 = i0;
          s = s\<lparr>hk_Ke := se_hetero_Ke mu w Ji J l1d N (hk_xe s) (hk_Ke s)\<rparr>;
          s = s\<lparr>hk_xe := hk_xe s + N\<rparr>
      in s\<lparr>hk_K := se_hetero_add_block (hk_Ke s) N i0 j0 (hk_K s)\<rparr>)"

definition se_hetero_K :: "vec \<Rightarrow> vec \<Rightarrow> real \<Rightarrow> real \<Rightarrow> mat \<Rightarrow> int \<Rightarrow> int \<Rightarrow> mat" where
  "se_hetero_K mu w Ji J l1d N ne =
     (let ng = se_ng N ne
      in hk_K (fold (se_hetero_K_elem mu w Ji J l1d N) (py_range 1 (ne + 1))
                 \<lparr>hk_K = zeros2 ng ng, hk_Ke = zeros2 (N + 1) (N + 1), hk_xe = 0\<rparr>))"

subsection \<open>Chebyshev pseudospectral method (W5): differentiation matrix and time loop\<close>

text \<open>
  \<^verbatim>\<open>
  def get_cheby_matrix(nx):
      cx = np.zeros(nx+1)
      x = np.zeros(nx+1)
      for ix in range(0,nx+1):
          x[ix] = np.cos(np.pi * ix / nx)
      cx[0] = 2.
      cx[nx] = 2.
      cx[1:nx] = 1.
      D = np.zeros((nx+1,nx+1))
      for i in range(0, nx+1):
          for j in range(0, nx+1):
              if i==j and i!=0 and i!=nx:
                  D[i,i]=-x[i]/(2.0*(1.0-x[i]*x[i]))
              else:
                  D[i,j]=(cx[i]*(-1)**(i+j))/(cx[j]*(x[i]-x[j]))
      D[0,0] = (2.*nx**2+1.)/6.
      D[nx,nx] = -D[0,0]
      return D
  \<close>
  The divisions inside the loops are divisions of NumPy floats: a zero denominator does not
  raise, it yields \<open>inf\<close> or \<open>nan\<close> (the notebook silences the warning).  To keep this
  visible the entries of \<open>D\<close> are values of type \<open>fl\<close>: a finite real or \<open>NonFinite\<close>,
  which stands for \<open>inf\<close>, \<open>-inf\<close> and \<open>nan\<close>.
\<close>

datatype fl = Finite real | NonFinite

definition fdiv :: "real \<Rightarrow> real \<Rightarrow> fl" where
  "fdiv a b = (if b = 0 then NonFinite else Finite (a / b))"

definition fneg :: "fl \<Rightarrow> fl" where
  "fneg v = (case v of Finite r \<Rightarrow> Finite (- r) | NonFinite \<Rightarrow> NonFinite)"

definition cheby_x :: "int \<Rightarrow> vec" where
  "cheby_x nx =
     fold (\<lambda>ix x. put x ix (cos (pi * real_of_int ix / real_of_int nx))) (py_range 0 (nx + 1))
          (zeros (nx + 1))"

definition cheby_cx :: "int \<Rightarrow> vec" where
  "cheby_cx nx =
     (let cx = zeros (nx + 1);
          cx = put cx 0 2;
          cx = put cx nx 2
      in fold (\<lambda>i cx. put cx i 1) (py_range 1 nx) cx)"

definition cheby_cell :: "int \<Rightarrow> vec \<Rightarrow> vec \<Rightarrow> int \<Rightarrow> int \<Rightarrow> fl list list \<Rightarrow> fl list list" where
  "cheby_cell nx x cx i j D =
     (if i = j \<and> i \<noteq> 0 \<and> i \<noteq> nx
      then put2 D i i (fdiv (- get x i) (2 * (1 - get x i * get x i)))
      else put2 D i j (fdiv (get cx i * (- 1) ^ nat (i + j)) (get cx j * (get x i - get x j))))"

definition cheby_loops :: "int \<Rightarrow> fl list list" where
  \<comment> \<open>the matrix after the two nested loops, before the corner entries are overwritten\<close>
  "cheby_loops nx =
     (let cx = cheby_cx nx;
          x = cheby_x nx;
          D = replicate (nat (nx + 1)) (replicate (nat (nx + 1)) (Finite 0))
      in fold (\<lambda>i. fold (cheby_cell nx x cx i) (py_range 0 (nx + 1))) (py_range 0 (nx + 1)) D)"

definition get_cheby_matrix :: "int \<Rightarrow> fl list list" where
  "get_cheby_matrix nx =
     (let D = cheby_loops nx;
          D = put2 D 0 0 (Finite ((2 * (real_of_int nx) ^ 2 + 1) / 6));
          D = put2 D nx nx (fneg (get2 D 0 0))
      in D)"

text \<open>
  \<^verbatim>\<open>
  for it in range(nt):
      du = mu * D @ u
      du = D @ du/rho
      unew = 2*u - uold + np.transpose(du) * dt**2
      unew = unew + sg*src[it]*dt**2/rho
      uold, u = u, unew
      u[0] = 0; u[nx] = 0 # set boundaries pressure free
      if it % idisp == 0:
          u_results[it//idisp] = u
  \<close>
  \<open>mu * D\<close> broadcasts the vector over the rows of the matrix.  After the rotation
  \<open>u\<close> and \<open>unew\<close> name the same array, so the two assignments to \<open>u[0]\<close> and \<open>u[nx]\<close>
  change both.
\<close>

definition rowscale :: "vec \<Rightarrow> mat \<Rightarrow> mat" where
  "rowscale v A = map (\<lambda>row. vmul v row) A"

record cheby_state =
  ch_uold :: vec
  ch_u :: vec
  ch_unew :: vec
  ch_du :: vec
  ch_u_results :: mat

definition cheby_body ::
  "real \<Rightarrow> mat \<Rightarrow> vec \<Rightarrow> vec \<Rightarrow> vec \<Rightarrow> vec \<Rightarrow> int \<Rightarrow> int \<Rightarrow> int \<Rightarrow> cheby_state \<Rightarrow> cheby_state" where
  "cheby_body dt D mu rho sg src nx idisp it s =
     (let du = matvec (rowscale mu D) (ch_u s);
          du = vdiv (matvec D du) rho;
          unew = vadd (vsub (smul 2 (ch_u s)) (ch_uold s)) (muls du (dt ^ 2));
          unew = vadd unew (vdiv (muls (muls sg (get src it)) (dt ^ 2)) rho);
          uold = ch_u s;
          u = unew;
          u = put u 0 0;
          u = put u nx 0;
          s' = s\<lparr>ch_du := du, ch_uold := uold, ch_u := u, ch_unew := u\<rparr>
      in if it mod idisp = 0
         then s'\<lparr>ch_u_results := put (ch_u_results s') (it div idisp) (ch_u s')\<rparr>
         else s')"

definition cheby_init :: "int \<Rightarrow> int \<Rightarrow> int \<Rightarrow> cheby_state" where
  "cheby_init nx nt idisp =
     \<lparr>ch_uold = zeros (nx + 1), ch_u = zeros (nx + 1), ch_unew = zeros (nx + 1),
      ch_du = zeros (nx + 1), ch_u_results = zeros2 (n_snapshots nt idisp) (nx + 1)\<rparr>"

definition cheby_run ::
  "real \<Rightarrow> mat \<Rightarrow> vec \<Rightarrow> vec \<Rightarrow> vec \<Rightarrow> vec \<Rightarrow> int \<Rightarrow> int \<Rightarrow> int \<Rightarrow> int \<Rightarrow> cheby_state" where
  "cheby_run dt D mu rho sg src nx idisp nt n =
     time_loop (cheby_body dt D mu rho sg src nx idisp) n (cheby_init nx nt idisp)"

subsection \<open>Fourier pseudospectral method against finite differences, 1D (W5)\<close>

text \<open>
  This notebook binds several names to one array,
  \<^verbatim>\<open>
  p = np.zeros(nx) ; pnew = p ; pold = p ; d2p = p; dp = p
  ap = np.zeros(nx); apnew = ap; apold = ap; ad2p = ap; adp = ap
  sp = np.zeros(nx); spnew = sp; spold = sp; sd2p = sp; sdp = p
  \<close>
  and its loop writes into \<open>d2p\<close>, \<open>ad2p\<close> and the current fields in place.  The arrays
  therefore live in an explicit store: a variable holds an address, an arithmetic expression
  allocates a new array, an indexed assignment changes the array at an address.
\<close>

record store =
  arr :: "nat \<Rightarrow> vec"
  fresh :: nat

definition alloc :: "vec \<Rightarrow> store \<Rightarrow> nat \<times> store" where
  "alloc v h = (fresh h, h\<lparr>arr := (arr h)(fresh h := v), fresh := Suc (fresh h)\<rparr>)"

definition wr :: "nat \<Rightarrow> int \<Rightarrow> real \<Rightarrow> store \<Rightarrow> store" where
  \<comment> \<open>\<open>a[i] = v\<close>\<close>
  "wr a i v h = h\<lparr>arr := (arr h)(a := put (arr h a) i v)\<rparr>"

text \<open>The four names of one method: current, new and old field, second derivative.\<close>

record fields =
  f_cur :: nat
  f_new :: nat
  f_old :: nat
  f_d2 :: nat

text \<open>
  \<^verbatim>\<open>
  sd2p  = fourier_derivative_2nd(sp, dx)
  spnew = 2*sp - spold + c**2 * dt**2 * sd2p
  spnew = spnew + sg*src[it]*dt**2
  spold, sp = sp, spnew
  sp[1] = 0; sp[nx-1] = 0     # set boundaries pressure free
  \<close>
  \<open>fourier_derivative_2nd\<close> is computed with \<open>np.fft\<close>; it is a parameter \<open>fd2\<close> here.
\<close>

definition f1_sp_step ::
  "(vec \<Rightarrow> real \<Rightarrow> vec) \<Rightarrow> real \<Rightarrow> real \<Rightarrow> real \<Rightarrow> vec \<Rightarrow> vec \<Rightarrow> int \<Rightarrow> int \<Rightarrow> fields \<times> store \<Rightarrow> fields \<times> store" where
  "f1_sp_step fd2 c dt dx sg src nx it vh =
     (let v = fst vh; h = snd vh;
          (sd2p, h) = alloc (fd2 (arr h (f_cur v)) dx) h;
          (spnew, h) = alloc (vadd (vsub (smul 2 (arr h (f_cur v))) (arr h (f_old v)))
                                   (smul (c ^ 2 * dt ^ 2) (arr h sd2p))) h;
          (spnew, h) = alloc (vadd (arr h spnew) (muls (muls sg (get src it)) (dt ^ 2))) h;
          v = \<lparr>f_cur = spnew, f_new = spnew, f_old = f_cur v, f_d2 = sd2p\<rparr>;
          h = wr (f_cur v) 1 0 h;
          h = wr (f_cur v) (nx - 1) 0 h
      in (v, h))"

text \<open>
  \<^verbatim>\<open>
  for i in range(1, nx-1):
      d2p[i] = (p[i+1] - 2*p[i] + p[i-1])/dx**2
  pnew = 2*p - pold + dt**2 * c**2 * d2p
  pnew = pnew + sg*src[it]*dt**2
  pold, p = p, pnew
  p[0] = 0; p[nx-1] = 0 # set boundaries pressure free
  \<close>
\<close>

definition f1_p_d2 :: "real \<Rightarrow> int \<Rightarrow> fields \<Rightarrow> store \<Rightarrow> store" where
  \<comment> \<open>the loop over \<open>i\<close>; it reads the store as left by the previous iteration\<close>
  "f1_p_d2 dx nx v h =
     fold (\<lambda>i h. wr (f_d2 v) i
             ((get (arr h (f_cur v)) (i + 1) - 2 * get (arr h (f_cur v)) i
               + get (arr h (f_cur v)) (i - 1)) / dx ^ 2) h)
          (py_range 1 (nx - 1)) h"

definition f1_p_step ::
  "real \<Rightarrow> real \<Rightarrow> real \<Rightarrow> vec \<Rightarrow> vec \<Rightarrow> int \<Rightarrow> int \<Rightarrow> fields \<times> store \<Rightarrow> fields \<times> store" where
  "f1_p_step c dt dx sg src nx it vh =
     (let v = fst vh; h = snd vh;
          h = f1_p_d2 dx nx v h;
          (pnew, h) = alloc (vadd (vsub (smul 2 (arr h (f_cur v))) (arr h (f_old v)))
                                  (smul (dt ^ 2 * c ^ 2) (arr h (f_d2 v)))) h;
          (pnew, h) = alloc (vadd (arr h pnew) (muls (muls sg (get src it)) (dt ^ 2))) h;
          v = v\<lparr>f_cur := pnew, f_new := pnew, f_old := f_cur v\<rparr>;
          h = wr (f_cur v) 0 0 h;
          h = wr (f_cur v) (nx - 1) 0 h
      in (v, h))"

text \<open>
  \<^verbatim>\<open>
  for i in range(2, nx-2):
      ad2p[i] = (-1/12*ap[i+2] + 4/3*ap[i+1] - 5/2*ap[i] \
                 + 4/3*ap[i-1] - 1/12*ap[i-2])/dx**2
  apnew = 2*ap - apold + dt**2 * c**2 * ad2p
  apnew = apnew + sg*src[it]*dt**2
  apold, ap = ap, apnew
  ap[0] = 0; ap[nx-1] = 0 # set boundaries pressure free
  \<close>
\<close>

definition f1_ap_d2 :: "real \<Rightarrow> int \<Rightarrow> fields \<Rightarrow> store \<Rightarrow> store" where
  "f1_ap_d2 dx nx v h =
     fold (\<lambda>i h. wr (f_d2 v) i
             ((- 1 / 12 * get (arr h (f_cur v)) (i + 2) + 4 / 3 * get (arr h (f_cur v)) (i + 1)
               - 5 / 2 * get (arr h (f_cur v)) i + 4 / 3 * get (arr h (f_cur v)) (i - 1)
               - 1 / 12 * get (arr h (f_cur v)) (i - 2)) / dx ^ 2) h)
          (py_range 2 (nx - 2)) h"

definition f1_ap_step ::
  "real \<Rightarrow> real \<Rightarrow> real \<Rightarrow> vec \<Rightarrow> vec \<Rightarrow> int \<Rightarrow> int \<Rightarrow> fields \<times> store \<Rightarrow> fields \<times> store" where
  "f1_ap_step c dt dx sg src nx it vh =
     (let v = fst vh; h = snd vh;
          h = f1_ap_d2 dx nx v h;
          (apnew, h) = alloc (vadd (vsub (smul 2 (arr h (f_cur v))) (arr h (f_old v)))
                                   (smul (dt ^ 2 * c ^ 2) (arr h (f_d2 v)))) h;
          (apnew, h) = alloc (vadd (arr h apnew) (muls (muls sg (get src it)) (dt ^ 2))) h;
          v = v\<lparr>f_cur := apnew, f_new := apnew, f_old := f_cur v\<rparr>;
          h = wr (f_cur v) 0 0 h;
          h = wr (f_cur v) (nx - 1) 0 h
      in (v, h))"

text \<open>
  The loop body runs the three methods in the order Fourier, 3-point, 5-point and then
  copies the three current fields into the rows of the result arrays:
  \<^verbatim>\<open>
  if it % idisp == 0:
      p_results[it//idisp] = p
      ap_results[it//idisp] = ap
      sp_results[it//idisp] = sp
  \<close>
\<close>

record f1_state =
  f1_store :: store
  f1_p :: fields
  f1_ap :: fields
  f1_sp :: fields
  f1_p_results :: mat
  f1_ap_results :: mat
  f1_sp_results :: mat

definition f1_body ::
  "(vec \<Rightarrow> real \<Rightarrow> vec) \<Rightarrow> real \<Rightarrow> real \<Rightarrow> real \<Rightarrow> vec \<Rightarrow> vec \<Rightarrow> int \<Rightarrow> int \<Rightarrow> int \<Rightarrow> f1_state \<Rightarrow> f1_state" where
  "f1_body fd2 c dt dx sg src nx idisp it s =
     (let (sp, h) = f1_sp_step fd2 c dt dx sg src nx it (f1_sp s, f1_store s);
          (p, h) = f1_p_step c dt dx sg src nx it (f1_p s, h);
          (ap, h) = f1_ap_step c dt dx sg src nx it (f1_ap s, h);
          s = s\<lparr>f1_store := h, f1_p := p, f1_ap := ap, f1_sp := sp\<rparr>
      in if it mod idisp = 0
         then s\<lparr>f1_p_results := put (f1_p_results s) (it div idisp) (arr h (f_cur p)),
                f1_ap_results := put (f1_ap_results s) (it div idisp) (arr h (f_cur ap)),
                f1_sp_results := put (f1_sp_results s) (it div idisp) (arr h (f_cur sp))\<rparr>
         else s)"

definition f1_init :: "int \<Rightarrow> int \<Rightarrow> int \<Rightarrow> f1_state" where
  \<comment> \<open>address 0 is the array of \<open>p\<close>, 1 that of \<open>ap\<close>, 2 that of \<open>sp\<close>\<close>
  "f1_init nx nt idisp =
     \<lparr>f1_store = \<lparr>arr = (\<lambda>a. zeros nx), fresh = 3\<rparr>,
      f1_p = \<lparr>f_cur = 0, f_new = 0, f_old = 0, f_d2 = 0\<rparr>,
      f1_ap = \<lparr>f_cur = 1, f_new = 1, f_old = 1, f_d2 = 1\<rparr>,
      f1_sp = \<lparr>f_cur = 2, f_new = 2, f_old = 2, f_d2 = 2\<rparr>,
      f1_p_results = zeros2 (n_snapshots nt idisp) nx,
      f1_ap_results = zeros2 (n_snapshots nt idisp) nx,
      f1_sp_results = zeros2 (n_snapshots nt idisp) nx\<rparr>"

definition f1_run ::
  "(vec \<Rightarrow> real \<Rightarrow> vec) \<Rightarrow> real \<Rightarrow> real \<Rightarrow> real \<Rightarrow> vec \<Rightarrow> vec \<Rightarrow> int \<Rightarrow> int \<Rightarrow> int \<Rightarrow> int \<Rightarrow> f1_state" where
  "f1_run fd2 c dt dx sg src nx idisp nt n =
     time_loop (f1_body fd2 c dt dx sg src nx idisp) n (f1_init nx nt idisp)"

subsection \<open>Fourier pseudospectral method against finite differences, 2D\<close>

text \<open>
  The grid is square, \<open>nz = nx\<close>.  All fields are allocated by \<open>np.zeros((nx, nz))\<close>.
  \<^verbatim>\<open>
  sp_sec = -np.abs(sp[1:int(nx/2), 1:int(nz/2)])
  ap_sec = -np.abs(ap[int(nx/2):nx, 1:int(nz/2)].T)

  ap_results = np.zeros((math.ceil(nt/idisp), int(nx/2)-1, int(nz/2)))
  sp_results = np.zeros((math.ceil(nt/idisp), nx-int(nx/2)-1, int(nz/2)-1))
  for it in range(nt):
      for j in np.arange(nz):
          sd2px[:,j] = fourier_derivative_2nd(sp[:,j].T, dx)
      for i in np.arange(nx):
          sd2pz[i,:] = fourier_derivative_2nd(sp[i,:], dx)
      spnew = 2*sp - spold + c**2 * dt**2 * (sd2px + sd2pz)
      spnew = spnew + sg*src[it]*dt**2
      spold, sp = sp, spnew
      for i in range(2, nz-2):
          ad2px[i,:] = (-1./12*ap[i+2,:] + 4./3*ap[i+1,:] - 5./2*ap[i,:] \
                        + 4./3*ap[i-1,:] - 1./12*ap[i-2,:])/dx**2
      for i in range(2, nx-2):
          ad2pz[:,i] = (-1./12*ap[:,i+2] + 4./3*ap[:,i+1] - 5./2*ap[:,i] \
                        + 4./3*ap[:,i-1] - 1./12*ap[:,i-2])/dx**2
      apnew = 2*ap - apold + dt**2 * c**2 * (ad2px + ad2pz)
      apnew = apnew + sg*src[it]*dt**2
      apold, ap = ap, apnew
      sp_sec = -np.abs(sp[1:int(nx/2), 1:int(nz/2)])
      ap_sec = -np.abs(ap[int(nx/2):nx, 1:int(nz/2)].T)
      if it % idisp == 0:
          ap_results[int(it/idisp)] = ap_sec
          sp_results[int(it/idisp)] = sp_sec
  \<close>
  The function \<open>fourier_derivative_2nd\<close> is a parameter of the model, as in the 1D notebook.
  The arrays \<open>spnew\<close> and \<open>apnew\<close> are fresh in every step and the derivative arrays are
  written in place under one name only, so that plain state passing is faithful here.  The
  section \<open>ap_sec\<close> fits a row of \<open>ap_results\<close>, and \<open>sp_sec\<close> a row of \<open>sp_results\<close>,
  exactly when \<open>nx\<close> is even; otherwise the assignment raises \<open>ValueError\<close>.
\<close>

definition col :: "mat \<Rightarrow> int \<Rightarrow> vec" where
  \<comment> \<open>\<open>A[:,j]\<close>\<close>
  "col A j = map (\<lambda>row. get row j) A"

definition set_col :: "mat \<Rightarrow> int \<Rightarrow> vec \<Rightarrow> mat" where
  \<comment> \<open>\<open>A[:,j] = v\<close>\<close>
  "set_col A j v = map2 (\<lambda>row x. put row j x) A v"

definition slice :: "'a list \<Rightarrow> int \<Rightarrow> int \<Rightarrow> 'a list" where
  \<comment> \<open>\<open>xs[a:b]\<close> for \<open>0 \<le> a\<close> and \<open>0 \<le> b\<close>\<close>
  "slice xs a b = drop (nat a) (take (nat b) xs)"

definition slice2 :: "mat \<Rightarrow> int \<Rightarrow> int \<Rightarrow> int \<Rightarrow> int \<Rightarrow> mat" where
  \<comment> \<open>\<open>A[a:b, c:d]\<close>\<close>
  "slice2 A a b c d = map (\<lambda>row. slice row c d) (slice A a b)"

definition neg_abs :: "mat \<Rightarrow> mat" where
  \<comment> \<open>\<open>-np.abs(A)\<close>\<close>
  "neg_abs A = map (map (\<lambda>x. - \<bar>x\<bar>)) A"

definition madd :: "mat \<Rightarrow> mat \<Rightarrow> mat" where
  "madd A B = map2 vadd A B"

definition msub :: "mat \<Rightarrow> mat \<Rightarrow> mat" where
  "msub A B = map2 vsub A B"

definition mmuls :: "mat \<Rightarrow> real \<Rightarrow> mat" where
  "mmuls A c = map (\<lambda>row. muls row c) A"

definition fd5 :: "vec \<Rightarrow> vec \<Rightarrow> vec \<Rightarrow> vec \<Rightarrow> vec \<Rightarrow> real \<Rightarrow> vec" where
  \<comment> \<open>\<open>(-1./12*a + 4./3*b - 5./2*c + 4./3*d - 1./12*e)/dx**2\<close> on whole rows or columns\<close>
  "fd5 a b c d e dx =
     divs (vsub (vadd (vsub (vadd (smul (- 1 / 12) a) (smul (4 / 3) b)) (smul (5 / 2) c))
                      (smul (4 / 3) d))
                (smul (1 / 12) e))
          (dx ^ 2)"

record p2_state =
  p2_sp :: mat
  p2_spold :: mat
  p2_spnew :: mat
  p2_sd2px :: mat
  p2_sd2pz :: mat
  p2_ap :: mat
  p2_apold :: mat
  p2_apnew :: mat
  p2_ad2px :: mat
  p2_ad2pz :: mat
  p2_sp_sec :: mat
  p2_ap_sec :: mat
  p2_ap_results :: "mat list"
  p2_sp_results :: "mat list"

definition p2_body ::
  "(vec \<Rightarrow> real \<Rightarrow> vec) \<Rightarrow> real \<Rightarrow> real \<Rightarrow> real \<Rightarrow> mat \<Rightarrow> vec \<Rightarrow> int \<Rightarrow> int \<Rightarrow> int \<Rightarrow> p2_state \<Rightarrow> p2_state" where
  "p2_body fd2 c dt dx sg src nx idisp it s =
     (let nz = nx;
          sp = p2_sp s; spold = p2_spold s; ap = p2_ap s; apold = p2_apold s;
          sd2px = fold (\<lambda>j A. set_col A j (fd2 (col sp j) dx)) (py_range 0 nz) (p2_sd2px s);
          sd2pz = fold (\<lambda>i A. put A i (fd2 (get sp i) dx)) (py_range 0 nx) (p2_sd2pz s);
          spnew = madd (msub (smulm 2 sp) spold) (smulm (c ^ 2 * dt ^ 2) (madd sd2px sd2pz));
          spnew = madd spnew (mmuls (mmuls sg (get src it)) (dt ^ 2));
          spold = sp;
          sp = spnew;
          ad2px = fold (\<lambda>i A. put A i (fd5 (get ap (i + 2)) (get ap (i + 1)) (get ap i)
                                              (get ap (i - 1)) (get ap (i - 2)) dx))
                       (py_range 2 (nz - 2)) (p2_ad2px s);
          ad2pz = fold (\<lambda>i A. set_col A i (fd5 (col ap (i + 2)) (col ap (i + 1)) (col ap i)
                                                  (col ap (i - 1)) (col ap (i - 2)) dx))
                       (py_range 2 (nx - 2)) (p2_ad2pz s);
          apnew = madd (msub (smulm 2 ap) apold) (smulm (dt ^ 2 * c ^ 2) (madd ad2px ad2pz));
          apnew = madd apnew (mmuls (mmuls sg (get src it)) (dt ^ 2));
          apold = ap;
          ap = apnew;
          sp_sec = neg_abs (slice2 sp 1 (nx div 2) 1 (nz div 2));
          ap_sec = neg_abs (transpose (slice2 ap (nx div 2) nx 1 (nz div 2)));
          s' = s\<lparr>p2_sp := sp, p2_spold := spold, p2_spnew := spnew, p2_sd2px := sd2px,
                 p2_sd2pz := sd2pz, p2_ap := ap, p2_apold := apold, p2_apnew := apnew,
                 p2_ad2px := ad2px, p2_ad2pz := ad2pz, p2_sp_sec := sp_sec, p2_ap_sec := ap_sec\<rparr>
      in if it mod idisp = 0
         then s'\<lparr>p2_ap_results := put (p2_ap_results s') (it div idisp) ap_sec,
                 p2_sp_results := put (p2_sp_results s') (it div idisp) sp_sec\<rparr>
         else s')"

definition p2_init :: "int \<Rightarrow> int \<Rightarrow> int \<Rightarrow> p2_state" where
  "p2_init nx nt idisp =
     (let nz = nx;
          z = zeros2 nx nz
      in \<lparr>p2_sp = z, p2_spold = z, p2_spnew = z, p2_sd2px = z, p2_sd2pz = z,
          p2_ap = z, p2_apold = z, p2_apnew = z, p2_ad2px = z, p2_ad2pz = z,
          p2_sp_sec = neg_abs (slice2 z 1 (nx div 2) 1 (nz div 2)),
          p2_ap_sec = neg_abs (transpose (slice2 z (nx div 2) nx 1 (nz div 2))),
          p2_ap_results = replicate (nat (n_snapshots nt idisp)) (zeros2 (nx div 2 - 1) (nz div 2)),
          p2_sp_results = replicate (nat (n_snapshots nt idisp))
                            (zeros2 (nx - nx div 2 - 1) (nz div 2 - 1))\<rparr>)"

definition p2_run ::
  "(vec \<Rightarrow> real \<Rightarrow> vec) \<Rightarrow> real \<Rightarrow> real \<Rightarrow> real \<Rightarrow> mat \<Rightarrow> vec \<Rightarrow> int \<Rightarrow> int \<Rightarrow> int \<Rightarrow> int \<Rightarrow> p2_state" where
  "p2_run fd2 c dt dx sg src nx idisp nt n =
     time_loop (p2_body fd2 c dt dx sg src nx idisp) n (p2_init nx nt idisp)"

subsection \<open>Outcome of the assembly cells\<close>

text \<open>
  The cells that assemble the matrices can raise three exceptions: \<open>np.zeros\<close> raises
  \<open>ValueError\<close> for a negative dimension, an index beyond the end of a NumPy array raises
  \<open>IndexError\<close>, and \<open>np.linalg.inv\<close> raises \<open>LinAlgError\<close> for a singular matrix.  A
  division by zero of NumPy floats is no exception (it yields \<open>inf\<close> or \<open>nan\<close> with a
  warning).  The cells contain no test of the material values.

  The finite-element mass cell ends with the statement
  \<^verbatim>\<open>
  Minv = np.linalg.inv(M)
  \<close>
  With the floating-point numbers idealised as reals, \<open>np.linalg.inv\<close> raises exactly when
  the determinant is zero, and otherwise returns the inverse matrix; both are given here by
  the expansion of the determinant along the first row and by the adjugate formula.
\<close>

datatype error = ValueError | IndexError | LinAlgError

definition del :: "nat \<Rightarrow> 'a list \<Rightarrow> 'a list" where
  \<comment> \<open>the list without its entry \<open>j\<close>\<close>
  "del j xs = take j xs @ drop (Suc j) xs"

fun det :: "mat \<Rightarrow> real" where
  "det [] = 1"
| "det (r # rs) = (\<Sum>j\<leftarrow>[0..<length r]. (- 1) ^ j * r ! j * det (map (del j) rs))"

definition linalg_inv :: "mat \<Rightarrow> error + mat" where
  \<comment> \<open>\<open>np.linalg.inv(A)\<close> for a square matrix\<close>
  "linalg_inv A =
     (if det A = 0 then Inl LinAlgError
      else Inr (map (\<lambda>i. map (\<lambda>j. (- 1) ^ (i + j) * det (map (del i) (del j A)) / det A)
                             [0..<length A])
                    [0..<length A]))"

text \<open>
  The finite-element cells, in the order of the notebook: the mass cell (assembly of \<open>M\<close>,
  then its inversion) and the stiffness cell.  The result is \<open>(M, Minv, K)\<close>.  The indices read
  are \<open>ro[0], \<dots>, ro[nx-1]\<close> and \<open>h[0], \<dots>, h[nx-2]\<close> (for \<open>nx = 1\<close>: \<open>h[0]\<close> and \<open>h[-1]\<close>), and
  the same for \<open>mu\<close>.
\<close>

definition fe_assembly :: "int \<Rightarrow> vec \<Rightarrow> vec \<Rightarrow> vec \<Rightarrow> error + mat \<times> mat \<times> mat" where
  "fe_assembly nx ro mu h =
     (if nx < 0 then Inl ValueError
      else if nx = 0 \<or> int (length ro) < nx \<or> int (length h) < max 1 (nx - 1) then Inl IndexError
      else (case linalg_inv (fe_M nx ro h) of
              Inl e \<Rightarrow> Inl e
            | Inr Minv \<Rightarrow>
                if int (length mu) < nx then Inl IndexError
                else Inr (fe_M nx ro h, Minv, fe_K nx mu h)))"

text \<open>
  The mass cell of the heterogeneous spectral-element notebook.  The indices read are
  \<open>rho[0], \<dots>, rho[ne*N]\<close> and \<open>w[0], \<dots>, w[N]\<close>, as soon as there is an element.  The cell goes
  on to fill the diagonal of \<open>Minv\<close> with \<open>1./M[i]\<close> (\<open>se_Minv\<close> above), a division of NumPy
  floats that raises nothing.
\<close>

definition se_hetero_mass_assembly :: "vec \<Rightarrow> vec \<Rightarrow> real \<Rightarrow> int \<Rightarrow> int \<Rightarrow> error + vec" where
  "se_hetero_mass_assembly rho w J N ne =
     (if N + 1 < 0 \<or> 2 * se_ng N ne < 0 then Inl ValueError
      else if 1 \<le> ne \<and> 0 \<le> N \<and> (int (length rho) \<le> ne * N \<or> int (length w) \<le> N)
      then Inl IndexError
      else Inr (se_hetero_M rho w J N ne))"

subsection \<open>The leapfrog rule in the words of the specification\<close>

text \<open>
  \<open>next = dt\<^sup>2 \<cdot> InverseMass \<cdot> (source_vector(t) - Stiffness \<cdot> current) + 2\<cdot>current - previous\<close>,
  written out for the degree of freedom \<open>i\<close> of a system with \<open>n\<close> degrees of freedom.
\<close>

definition leapfrog_next :: "nat \<Rightarrow> real \<Rightarrow> mat \<Rightarrow> mat \<Rightarrow> vec \<Rightarrow> vec \<Rightarrow> vec \<Rightarrow> nat \<Rightarrow> real" where
  "leapfrog_next n dt InverseMass Stiffness source_vector current previous i =
     dt\<^sup>2 * (\<Sum>j<n. InverseMass ! i ! j *
               (source_vector ! j - (\<Sum>k<n. Stiffness ! j ! k * current ! k)))
     + 2 * current ! i - previous ! i"

subsection \<open>Auxiliary notions for the proofs\<close>

definition cellwise ::
  "nat \<Rightarrow> ('a list list \<Rightarrow> 'a list list) \<Rightarrow> (int \<Rightarrow> int \<Rightarrow> 'a \<Rightarrow> 'a) \<Rightarrow> bool" where
  "cellwise n F T \<longleftrightarrow>
     (\<forall>A. square n A \<longrightarrow> square n (F A) \<and>
        (\<forall>a b. 0 \<le> a \<and> a < int n \<and> 0 \<le> b \<and> b < int n \<longrightarrow> get2 (F A) a b = T a b (get2 A a b)))"

definition fe_M_val :: "vec \<Rightarrow> vec \<Rightarrow> int \<Rightarrow> int \<Rightarrow> real" where
  "fe_M_val ro h i j =
     (if j = i then (get ro (i - 1) * get h (i - 1) + get ro i * get h i) / 3
      else if j = i + 1 then get ro i * get h i / 6
      else if j = i - 1 then get ro (i - 1) * get h (i - 1) / 6
      else 0)"

definition fe_K_val :: "vec \<Rightarrow> vec \<Rightarrow> int \<Rightarrow> int \<Rightarrow> real" where
  "fe_K_val mu h i j =
     (if i = j then get mu (i - 1) / get h (i - 1) + get mu i / get h i
      else if i = j + 1 then - get mu (i - 1) / get h (i - 1)
      else if i + 1 = j then - get mu i / get h i
      else 0)"

definition se_hetero_KeC :: "vec \<Rightarrow> vec \<Rightarrow> real \<Rightarrow> real \<Rightarrow> mat \<Rightarrow> int \<Rightarrow> int \<Rightarrow> int \<Rightarrow> int \<Rightarrow> real" where
  "se_hetero_KeC mu w Ji J l1d N xe a b =
     (\<Sum>k\<leftarrow>py_range (- 1) N. get mu (k + 1 + xe) * get w (k + 1) * Ji ^ 2 * J
                                * get2 l1d a (k + 1) * get2 l1d b (k + 1))"

definition in_block :: "int \<Rightarrow> int \<Rightarrow> int \<Rightarrow> int \<Rightarrow> bool" where
  "in_block N e a b \<longleftrightarrow> (e - 1) * N \<le> a \<and> a \<le> e * N \<and> (e - 1) * N \<le> b \<and> b \<le> e * N"

definition assembled :: "(int \<Rightarrow> int \<Rightarrow> int \<Rightarrow> real) \<Rightarrow> int \<Rightarrow> int \<Rightarrow> int \<Rightarrow> int \<Rightarrow> real" where
  "assembled Kel N m a b =
     (\<Sum>e\<leftarrow>py_range 1 (m + 1).
        if in_block N e a b then Kel e (a - (e - 1) * N) (b - (e - 1) * N) else 0)"

definition se_hetero_Kel :: "vec \<Rightarrow> vec \<Rightarrow> real \<Rightarrow> real \<Rightarrow> mat \<Rightarrow> int \<Rightarrow> int \<Rightarrow> int \<Rightarrow> int \<Rightarrow> real" where
  "se_hetero_Kel mu w Ji J l1d N e = se_hetero_KeC mu w Ji J l1d N ((e - 1) * N)"

definition se_hetero_K_loop :: "vec \<Rightarrow> vec \<Rightarrow> real \<Rightarrow> real \<Rightarrow> mat \<Rightarrow> int \<Rightarrow> int \<Rightarrow> int \<Rightarrow> se_hetero_K_state" where
  "se_hetero_K_loop mu w Ji J l1d N ng m =
     fold (se_hetero_K_elem mu w Ji J l1d N) (py_range 1 (m + 1))
        \<lparr>hk_K = zeros2 ng ng, hk_Ke = zeros2 (N + 1) (N + 1), hk_xe = 0\<rparr>"

definition se_homo_KeC :: "real \<Rightarrow> vec \<Rightarrow> real \<Rightarrow> mat \<Rightarrow> int \<Rightarrow> int \<Rightarrow> int \<Rightarrow> real" where
  "se_homo_KeC mu w Ji l1d N a b =
     (\<Sum>k\<leftarrow>py_range 0 (N + 1). mu * get w k * Ji * get2 l1d a k * get2 l1d b k)"

definition symmetric :: "mat \<Rightarrow> bool" where
  "symmetric A \<longleftrightarrow> transpose A = A"

definition se_hetero_elem :: "vec \<Rightarrow> vec \<Rightarrow> real \<Rightarrow> real \<Rightarrow> mat \<Rightarrow> int \<Rightarrow> int \<Rightarrow> mat" where
  "se_hetero_elem mu w Ji J l1d N e =
     se_hetero_Ke mu w Ji J l1d N ((e - 1) * N) (zeros2 (N + 1) (N + 1))"

definition cheby_val :: "int \<Rightarrow> vec \<Rightarrow> vec \<Rightarrow> int \<Rightarrow> int \<Rightarrow> fl" where
  "cheby_val nx x cx i j =
     (if i = j \<and> i \<noteq> 0 \<and> i \<noteq> nx
      then fdiv (- get x i) (2 * (1 - get x i * get x i))
      else fdiv (get cx i * (- 1) ^ nat (i + j)) (get cx j * (get x i - get x j)))"

definition snapshot_log :: "int \<Rightarrow> int \<Rightarrow> (int \<Rightarrow> 'r list) \<Rightarrow> (int \<Rightarrow> 'r) \<Rightarrow> bool" where
  "snapshot_log nt idisp lg field \<longleftrightarrow>
     length (lg nt) = nat (n_snapshots nt idisp)
   \<and> (\<forall>j. 0 \<le> j \<and> j < n_snapshots nt idisp \<longrightarrow> get (lg nt) j = field (j * idisp + 1))
   \<and> (\<forall>it. 0 \<le> it \<and> it < nt \<and> it mod idisp \<noteq> 0 \<longrightarrow> lg (it + 1) = lg it)
   \<and> (\<forall>it. 0 \<le> it \<and> it < nt \<and> it mod idisp = 0 \<longrightarrow>
          lg (it + 1) = put (lg it) (it div idisp) (field (it + 1)))"

definition f1_field :: "(f1_state \<Rightarrow> fields) \<Rightarrow> f1_state \<Rightarrow> vec" where
  \<comment> \<open>the contents of the array that the current-field variable of a method refers to\<close>
  "f1_field m s = arr (f1_store s) (f_cur (m s))"

definition st_ok :: "int \<Rightarrow> store \<Rightarrow> bool" where
  "st_ok nx h \<longleftrightarrow> (\<forall>a. length (arr h a) = nat nx)"

definition v_ok :: "store \<Rightarrow> fields \<Rightarrow> bool" where
  "v_ok h v \<longleftrightarrow> f_cur v < fresh h \<and> f_new v < fresh h \<and> f_old v < fresh h \<and> f_d2 v < fresh h"

definition leap_tail ::
  "nat \<Rightarrow> nat \<Rightarrow> nat \<Rightarrow> real \<Rightarrow> vec \<Rightarrow> real \<Rightarrow> real \<Rightarrow> int \<Rightarrow> int \<Rightarrow> store \<Rightarrow> nat \<times> store" where
  \<comment> \<open>the last part of a step: two allocations and the two boundary writes\<close>
  "leap_tail c o1 d k sg s e i0 nx h =
     (let (a, h) = alloc (vadd (vsub (smul 2 (arr h c)) (arr h o1)) (smul k (arr h d))) h;
          (a, h) = alloc (vadd (arr h a) (muls (muls sg s) e)) h;
          h = wr a i0 0 h;
          h = wr a (nx - 1) 0 h
      in (a, h))"

definition f1_ok :: "int \<Rightarrow> f1_state \<Rightarrow> bool" where
  "f1_ok nx s \<longleftrightarrow> st_ok nx (f1_store s) \<and> v_ok (f1_store s) (f1_p s)
                 \<and> v_ok (f1_store s) (f1_ap s) \<and> v_ok (f1_store s) (f1_sp s)"

definition se_M_spec :: "(int \<Rightarrow> int \<Rightarrow> real) \<Rightarrow> int \<Rightarrow> int \<Rightarrow> int \<Rightarrow> real" where
  \<comment> \<open>entry \<open>g\<close> of the global mass vector after \<open>m\<close> elements, as a sum of element contributions\<close>
  "se_M_spec MeF N m g =
     (\<Sum>e\<leftarrow>py_range 1 (m + 1).
        if (e - 1) * N \<le> g \<and> g \<le> e * N then MeF e (g - (e - 1) * N) else 0)"

definition se_hetero_MeF :: "vec \<Rightarrow> vec \<Rightarrow> real \<Rightarrow> int \<Rightarrow> int \<Rightarrow> int \<Rightarrow> real" where
  \<comment> \<open>the elemental mass at local node \<open>l\<close> of element \<open>e\<close> in the heterogeneous notebook\<close>
  "se_hetero_MeF rho w J N e l = get rho ((e - 1) * N + l) * get w l * J"

definition se_M_inv :: "(int \<Rightarrow> int \<Rightarrow> real) \<Rightarrow> int \<Rightarrow> int \<Rightarrow> int \<times> vec \<Rightarrow> bool" where
  \<comment> \<open>the counter and the mass vector after \<open>m\<close> elements\<close>
  "se_M_inv MeF N m kM \<longleftrightarrow>
     fst kM = (if m = 0 then - 1 else m * N)
   \<and> sum_list (snd kM) = (\<Sum>e\<leftarrow>py_range 1 (m + 1). \<Sum>l\<leftarrow>py_range 0 (N + 1). MeF e l)
   \<and> (\<forall>g. 0 \<le> g \<and> g < int (length (snd kM)) \<longrightarrow> get (snd kM) g = se_M_spec MeF N m g)"

section \<open>Properties\<close>

subsection \<open>Array operations\<close>

lemma length_zeros [simp]: "length (zeros n) = nat n" by (simp add: zeros_def)
lemma length_put [simp]: "length (put xs i v) = length xs" by (simp add: put_def)
lemma length_vadd [simp]: "length (vadd a b) = min (length a) (length b)" by (simp add: vadd_def)
lemma length_vsub [simp]: "length (vsub a b) = min (length a) (length b)" by (simp add: vsub_def)
lemma length_smul [simp]: "length (smul c a) = length a" by (simp add: smul_def)
lemma length_muls [simp]: "length (muls a c) = length a" by (simp add: muls_def)
lemma length_matvec [simp]: "length (matvec A v) = length A" by (simp add: matvec_def)
lemma length_smulm [simp]: "length (smulm c A) = length A" by (simp add: smulm_def)

lemma nth_vadd: "i < length a \<Longrightarrow> i < length b \<Longrightarrow> vadd a b ! i = a ! i + b ! i"
  by (simp add: vadd_def)
lemma nth_vsub: "i < length a \<Longrightarrow> i < length b \<Longrightarrow> vsub a b ! i = a ! i - b ! i"
  by (simp add: vsub_def)
lemma nth_smul: "i < length a \<Longrightarrow> smul c a ! i = c * a ! i"
  by (simp add: smul_def)
lemma nth_muls: "i < length a \<Longrightarrow> muls a c ! i = a ! i * c"
  by (simp add: muls_def)

lemma dot_sum: "length a = n \<Longrightarrow> length b = n \<Longrightarrow> dot a b = (\<Sum>j<n. a ! j * b ! j)"
  by (simp add: dot_def vmul_def sum_list_sum_nth atLeast0LessThan)

lemma nth_matvec: "i < length A \<Longrightarrow> matvec A v ! i = dot (A ! i) v"
  by (simp add: matvec_def)

lemma square_row: "square n A \<Longrightarrow> i < n \<Longrightarrow> length (A ! i) = n"
  by (simp add: square_def list_all_length)

lemma square_length: "square n A \<Longrightarrow> length A = n"
  by (simp add: square_def)

lemma square_smulm: "square n A \<Longrightarrow> square n (smulm c A)"
  by (simp add: square_def smulm_def list_all_length)

lemma nth_smulm: "i < length A \<Longrightarrow> smulm c A ! i = smul c (A ! i)"
  by (simp add: smulm_def)

lemma leapfrog_code:
  assumes M: "square n Minv" and K: "square n K"
    and f: "length f = n" and u: "length u = n" and uo: "length uold = n" and i: "i < n"
  shows "vsub (vadd (matvec (smulm (dt ^ 2) Minv) (vsub f (matvec K u))) (smul 2 u)) uold ! i
         = leapfrog_next n dt Minv K f u uold i"
proof -
  have lK: "length K = n" and lM: "length Minv = n"
    using M K by (simp_all add: square_length)
  have rowK: "\<And>j. j < n \<Longrightarrow> length (K ! j) = n" using K by (rule square_row)
  have rowM: "length (Minv ! i) = n" using M i by (rule square_row)
  define r where "r = vsub f (matvec K u)"
  have lr: "length r = n" by (simp add: r_def f lK)
  have r: "\<And>j. j < n \<Longrightarrow> r ! j = f ! j - (\<Sum>k<n. K ! j ! k * u ! k)"
    by (simp add: r_def nth_vsub f lK nth_matvec dot_sum rowK u)
  have "matvec (smulm (dt ^ 2) Minv) r ! i = dot (smul (dt ^ 2) (Minv ! i)) r"
    by (simp add: nth_matvec lM i nth_smulm)
  also have "\<dots> = (\<Sum>j<n. (dt ^ 2 * Minv ! i ! j) * r ! j)"
    by (simp add: dot_sum[of _ n] rowM lr nth_smul)
  also have "\<dots> = dt ^ 2 * (\<Sum>j<n. Minv ! i ! j * r ! j)"
    by (simp add: sum_distrib_left mult.assoc)
  finally have mv: "matvec (smulm (dt ^ 2) Minv) r ! i = dt ^ 2 * (\<Sum>j<n. Minv ! i ! j * r ! j)" .
  have "vsub (vadd (matvec (smulm (dt ^ 2) Minv) r) (smul 2 u)) uold ! i
        = matvec (smulm (dt ^ 2) Minv) r ! i + 2 * u ! i - uold ! i"
    by (simp add: nth_vsub nth_vadd nth_smul lM u uo i)
  then show ?thesis
    unfolding r_def[symmetric] leapfrog_next_def mv using r by simp
qed

subsection \<open>Time loops\<close>

lemma py_range_Suc: "a \<le> b \<Longrightarrow> py_range a (b + 1) = py_range a b @ [b]"
  by (simp add: py_range_def upto_rec2)

lemma time_loop_0: "time_loop body 0 s = s"
  by (simp add: time_loop_def py_range_def)

lemma time_loop_Suc: "0 \<le> n \<Longrightarrow> time_loop body (n + 1) s = body n (time_loop body n s)"
  by (simp add: time_loop_def py_range_Suc)

lemma pos_nonneg [simp]: "0 \<le> i \<Longrightarrow> pos xs i = nat i"
  by (simp add: pos_def)

lemma length_se_force [simp]: "length (se_force ng isrc src it) = nat ng"
  by (simp add: se_force_def Let_def)

lemma se_body_uold [simp]: "se_uold (se_body dt Minv K ng isrc src idisp it s) = se_u s"
  by (simp add: se_body_def Let_def)

lemma se_body_f [simp]: "se_f (se_body dt Minv K ng isrc src idisp it s) = se_force ng isrc src it"
  by (simp add: se_body_def Let_def)

lemma se_body_u:
  "se_u (se_body dt Minv K ng isrc src idisp it s)
   = vsub (vadd (matvec (smulm (dt ^ 2) Minv) (vsub (se_force ng isrc src it) (matvec K (se_u s))))
                (smul 2 (se_u s))) (se_uold s)"
  by (simp add: se_body_def Let_def)

lemma se_body_lengths:
  assumes "length Minv = nat ng" "length (se_u s) = nat ng" "length (se_uold s) = nat ng"
  shows "length (se_u (se_body dt Minv K ng isrc src idisp it s)) = nat ng"
    and "length (se_uold (se_body dt Minv K ng isrc src idisp it s)) = nat ng"
  using assms by (simp_all add: se_body_u)

lemma se_run_0: "se_run dt Minv K ng isrc src idisp nt 0 = se_init ng nt idisp"
  by (simp add: se_run_def time_loop_0)

lemma se_run_Suc:
  "0 \<le> n \<Longrightarrow> se_run dt Minv K ng isrc src idisp nt (n + 1)
     = se_body dt Minv K ng isrc src idisp n (se_run dt Minv K ng isrc src idisp nt n)"
  by (simp add: se_run_def time_loop_Suc)

lemma se_run_lengths:
  assumes M: "length Minv = nat ng" and n: "0 \<le> n"
  shows "length (se_u (se_run dt Minv K ng isrc src idisp nt n)) = nat ng
       \<and> length (se_uold (se_run dt Minv K ng isrc src idisp nt n)) = nat ng"
  using n
proof (induction n rule: int_ge_induct)
  case base
  show ?case by (simp add: se_run_0 se_init_def)
next
  case (step k)
  then show ?case using M by (simp add: se_run_Suc se_body_lengths)
qed

lemma se_step_leapfrog:
  assumes "square (nat ng) Minv" "square (nat ng) K" "0 \<le> it" "i < nat ng"
  shows "se_u (se_run dt Minv K ng isrc src idisp nt (it + 1)) ! i
         = leapfrog_next (nat ng) dt Minv K (se_force ng isrc src it)
             (se_u (se_run dt Minv K ng isrc src idisp nt it))
             (se_uold (se_run dt Minv K ng isrc src idisp nt it)) i"
proof -
  have l: "length Minv = nat ng" using assms(1) by (rule square_length)
  note ls = se_run_lengths[OF l assms(3), of dt K isrc src idisp nt]
  show ?thesis
    unfolding se_run_Suc[OF assms(3)] se_body_u
    by (rule leapfrog_code[OF assms(1,2)]) (use ls assms(4) in simp_all)
qed

lemma fe_body_uold [simp]: "fe_uold (fe_body dt dx Minv K Mfd D f src idisp it s) = fe_u s"
  by (simp add: fe_body_def Let_def)

lemma fe_body_u:
  "fe_u (fe_body dt dx Minv K Mfd D f src idisp it s)
   = vsub (vadd (matvec (smulm (dt ^ 2) Minv) (vsub (muls f (get src it)) (matvec K (fe_u s))))
                (smul 2 (fe_u s))) (fe_uold s)"
  by (simp add: fe_body_def Let_def)

lemma fe_run_0: "fe_run dt dx Minv K Mfd D f src idisp nx nt 0 = fe_init nx nt idisp"
  by (simp add: fe_run_def time_loop_0)

lemma fe_run_Suc:
  "0 \<le> n \<Longrightarrow> fe_run dt dx Minv K Mfd D f src idisp nx nt (n + 1)
     = fe_body dt dx Minv K Mfd D f src idisp n (fe_run dt dx Minv K Mfd D f src idisp nx nt n)"
  by (simp add: fe_run_def time_loop_Suc)

lemma fe_run_lengths:
  assumes M: "length Minv = nat nx" and f: "length f = nat nx" and n: "0 \<le> n"
  shows "length (fe_u (fe_run dt dx Minv K Mfd D f src idisp nx nt n)) = nat nx
       \<and> length (fe_uold (fe_run dt dx Minv K Mfd D f src idisp nx nt n)) = nat nx"
  using n
proof (induction n rule: int_ge_induct)
  case base
  show ?case by (simp add: fe_run_0 fe_init_def)
next
  case (step k)
  then show ?case using M f by (simp add: fe_run_Suc fe_body_u)
qed

lemma fe_step_leapfrog:
  assumes "square (nat nx) Minv" "square (nat nx) K" "length f = nat nx" "0 \<le> it" "i < nat nx"
  shows "fe_u (fe_run dt dx Minv K Mfd D f src idisp nx nt (it + 1)) ! i
         = leapfrog_next (nat nx) dt Minv K (muls f (get src it))
             (fe_u (fe_run dt dx Minv K Mfd D f src idisp nx nt it))
             (fe_uold (fe_run dt dx Minv K Mfd D f src idisp nx nt it)) i"
proof -
  have l: "length Minv = nat nx" using assms(1) by (rule square_length)
  note ls = fe_run_lengths[OF l assms(3,4), of dt dx K Mfd D src idisp nt]
  show ?thesis
    unfolding fe_run_Suc[OF assms(4)] fe_body_u
    by (rule leapfrog_code[OF assms(1,2)]) (use ls assms(3,5) in simp_all)
qed

lemma se_force_inject:
  assumes "0 \<le> it" "it < int (length src)" "1 \<le> isrc" "isrc \<le> ng"
  shows "se_force ng isrc src it
         = (zeros ng)[nat (isrc - 1) := (if it = 0 then last src else src ! nat (it - 1))]"
proof -
  have ne: "src \<noteq> []" using assms by auto
  have "get src (it - 1) = (if it = 0 then last src else src ! nat (it - 1))"
    using assms ne by (auto simp: get_def pos_def last_conv_nth nat_diff_distrib)
  then show ?thesis using assms by (simp add: se_force_def put_def)
qed

lemma se_hetero_run_fst:
  "0 \<le> n \<Longrightarrow> fst (se_hetero_run dt Minv K ng isrc src idisp nt n)
     = se_run dt Minv K ng isrc src idisp nt n"
proof (induction n rule: int_ge_induct)
  case base
  show ?case by (simp add: se_hetero_run_def se_run_def time_loop_0)
next
  case (step k)
  have "se_hetero_run dt Minv K ng isrc src idisp nt (k + 1)
        = se_hetero_body dt Minv K ng isrc src idisp k (se_hetero_run dt Minv K ng isrc src idisp nt k)"
    using step.hyps by (simp add: se_hetero_run_def time_loop_Suc)
  then show ?case using step by (simp add: se_hetero_body_def Let_def se_run_Suc)
qed

text \<open>
  C1.  Every iteration of the spectral-element loops (homogeneous and heterogeneous
  notebook) and of the finite-element loop computes, for every degree of freedom, the
  leapfrog rule of the specification, and then rotates the time levels.  The hypotheses are
  the shapes of the notebooks' arrays, under which step \<open>it\<close> of a run of \<open>nt\<close> steps is reached
  without an exception (the finite-element loop reads \<open>src[it]\<close> unguarded).
\<close>

theorem time_step_is_leapfrog:
  assumes "square (nat n) Minv" and "square (nat n) K" and "length f = nat n"
    and "0 \<le> it" and "i < nat n"
    and "it < nt" and "0 < idisp" and "1 \<le> isrc" and "isrc \<le> n"
    and "square (nat n) Mfd" and "square (nat n) D" and "it < int (length srcf)"
  shows "(let s = se_run dt Minv K n isrc src idisp nt it;
              s' = se_run dt Minv K n isrc src idisp nt (it + 1)
          in se_u s' ! i = leapfrog_next (nat n) dt Minv K (se_force n isrc src it) (se_u s) (se_uold s) i
           \<and> se_uold s' = se_u s)
       \<and> (let s = fst (se_hetero_run dt Minv K n isrc src idisp nt it);
              s' = fst (se_hetero_run dt Minv K n isrc src idisp nt (it + 1))
          in se_u s' ! i = leapfrog_next (nat n) dt Minv K (se_force n isrc src it) (se_u s) (se_uold s) i
           \<and> se_uold s' = se_u s)
       \<and> (let s = fe_run dt dx Minv K Mfd D f srcf idisp n nt it;
              s' = fe_run dt dx Minv K Mfd D f srcf idisp n nt (it + 1)
          in fe_u s' ! i = leapfrog_next (nat n) dt Minv K (muls f (get srcf it)) (fe_u s) (fe_uold s) i
           \<and> fe_uold s' = fe_u s)"
proof -
  have it1: "0 \<le> it + 1" using assms(4) by simp
  have se: "se_u (se_run dt Minv K n isrc src idisp nt (it + 1)) ! i
      = leapfrog_next (nat n) dt Minv K (se_force n isrc src it)
          (se_u (se_run dt Minv K n isrc src idisp nt it))
          (se_uold (se_run dt Minv K n isrc src idisp nt it)) i"
    by (rule se_step_leapfrog[OF assms(1,2,4,5)])
  have fe: "fe_u (fe_run dt dx Minv K Mfd D f srcf idisp n nt (it + 1)) ! i
      = leapfrog_next (nat n) dt Minv K (muls f (get srcf it))
          (fe_u (fe_run dt dx Minv K Mfd D f srcf idisp n nt it))
          (fe_uold (fe_run dt dx Minv K Mfd D f srcf idisp n nt it)) i"
    by (rule fe_step_leapfrog[OF assms(1,2,3,4,5)])
  show ?thesis
    unfolding Let_def se_hetero_run_fst[OF assms(4)] se_hetero_run_fst[OF it1]
    using se fe by (simp add: se_run_Suc[OF assms(4)] fe_run_Suc[OF assms(4)])
qed

theorem time_step_is_leapfrog_witness:
  "square (nat 2) [[1, 0], [0, 1]] \<and> square (nat 2) [[1, -1], [-1, 1]] \<and> length [1, 0 :: real] = nat 2
   \<and> (let s = se_run 1 [[1, 0], [0, 1]] [[1, -1], [-1, 1]] 2 1 [5] 1 1 0;
          s' = se_run 1 [[1, 0], [0, 1]] [[1, -1], [-1, 1]] 2 1 [5] 1 1 (0 + 1)
      in se_u s' ! 0 = leapfrog_next (nat 2) 1 [[1, 0], [0, 1]] [[1, -1], [-1, 1]] (se_force 2 1 [5] 0) (se_u s) (se_uold s) 0
       \<and> se_uold s' = se_u s)
   \<and> (let s = fst (se_hetero_run 1 [[1, 0], [0, 1]] [[1, -1], [-1, 1]] 2 1 [5] 1 1 0);
          s' = fst (se_hetero_run 1 [[1, 0], [0, 1]] [[1, -1], [-1, 1]] 2 1 [5] 1 1 (0 + 1))
      in se_u s' ! 0 = leapfrog_next (nat 2) 1 [[1, 0], [0, 1]] [[1, -1], [-1, 1]] (se_force 2 1 [5] 0) (se_u s) (se_uold s) 0
       \<and> se_uold s' = se_u s)
   \<and> (let s = fe_run 1 1 [[1, 0], [0, 1]] [[1, -1], [-1, 1]] [[1, 0], [0, 1]] [[0, 0], [0, 0]] [1, 0] [5] 1 2 1 0;
          s' = fe_run 1 1 [[1, 0], [0, 1]] [[1, -1], [-1, 1]] [[1, 0], [0, 1]] [[0, 0], [0, 0]] [1, 0] [5] 1 2 1 (0 + 1)
      in fe_u s' ! 0 = leapfrog_next (nat 2) 1 [[1, 0], [0, 1]] [[1, -1], [-1, 1]] (muls [1, 0] (get [5] 0)) (fe_u s) (fe_uold s) 0
       \<and> fe_uold s' = fe_u s)"
proof -
  have sq: "square (nat 2) [[1, 0], [0, 1]]" "square (nat 2) [[1, -1], [-1, 1]]"
    by (simp_all add: square_def)
  have l: "length [1, 0 :: real] = nat 2" by simp
  have i: "(0::int) \<le> 0" "(0::nat) < nat 2" by simp_all
  have r: "(0::int) < 1" "(0::int) < 1" "(1::int) \<le> 1" "(1::int) \<le> 2"
    "square (nat 2) [[1, 0], [0, 1 :: real]]" "square (nat 2) [[0, 0], [0, 0 :: real]]"
    "(0::int) < int (length [5 :: real])"
    by (simp_all add: square_def)
  show ?thesis
    using sq l time_step_is_leapfrog[OF sq l i r] by blast
qed

text \<open>
  C9.  In both spectral-element loops the force vector of step \<open>it\<close> (for \<open>it < len(src)\<close>)
  is zero except at node \<open>isrc - 1\<close>, where it holds \<open>src[it-1]\<close>; at the first step
  \<open>it = 0\<close> this is \<open>src[-1]\<close>, the last sample of the source array.
\<close>

theorem source_injection_index:
  assumes "0 \<le> it" and "it < int (length src)" and "1 \<le> isrc" and "isrc \<le> ng"
    and "it < nt" and "0 < idisp" and "square (nat ng) Minv" and "square (nat ng) K"
  shows "se_f (se_run dt Minv K ng isrc src idisp nt (it + 1))
           = (zeros ng)[nat (isrc - 1) := (if it = 0 then last src else src ! nat (it - 1))]
       \<and> se_f (fst (se_hetero_run dt Minv K ng isrc src idisp nt (it + 1)))
           = (zeros ng)[nat (isrc - 1) := (if it = 0 then last src else src ! nat (it - 1))]"
proof -
  have it1: "0 \<le> it + 1" using assms(1) by simp
  show ?thesis
    unfolding se_hetero_run_fst[OF it1] se_run_Suc[OF assms(1)] se_body_f
    using se_force_inject[OF assms(1-4)] by simp
qed

theorem source_injection_index_witness:
  "se_f (se_run 1 [[1, 0], [0, 1]] [[1, -1], [-1, 1]] 2 1 [5, 6, 7] 1 1 (0 + 1)) = [7, 0]
   \<and> se_f (fst (se_hetero_run 1 [[1, 0], [0, 1]] [[1, -1], [-1, 1]] 2 1 [5, 6, 7] 1 1 (0 + 1))) = [7, 0]"
proof -
  have h: "(0::int) \<le> 0" "(0::int) < int (length [5, 6, 7 :: real])" "(1::int) \<le> 1" "(1::int) \<le> 2"
    "(0::int) < 1" "(0::int) < 1"
    "square (nat 2) [[1, 0], [0, 1 :: real]]" "square (nat 2) [[1, -1], [-1, 1 :: real]]"
    by (simp_all add: square_def)
  show ?thesis
    using source_injection_index[OF h, of 1]
    by (simp add: zeros_def numeral_2_eq_2)
qed

subsection \<open>Loops that act cell by cell\<close>

lemma get_nth: "0 \<le> i \<Longrightarrow> get xs i = xs ! nat i"
  by (simp add: get_def)

lemma get2_nth: "0 \<le> i \<Longrightarrow> 0 \<le> j \<Longrightarrow> get2 A i j = A ! nat i ! nat j"
  by (simp add: get2_def get_def)

lemma square_update_row:
  assumes "square n A" "length r = n"
  shows "square n (A[k := r])"
proof (cases "k < length A")
  case True
  then show ?thesis
    using assms by (auto simp: square_def list_all_length nth_list_update)
next
  case False
  then show ?thesis using assms by (simp add: list_update_beyond)
qed

lemma square_put2: "square n A \<Longrightarrow> square n (put2 A i j v)"
proof -
  assume sq: "square n A"
  show ?thesis
  proof (cases "pos A i < n")
    case True
    then have "length ((A ! pos A i)[pos (A ! pos A i) j := v]) = n"
      using sq by (simp add: square_def list_all_length)
    then show ?thesis
      unfolding put2_def put_def get_def by (rule square_update_row[OF sq])
  next
    case False
    then have "A[pos A i := (A ! pos A i)[pos (A ! pos A i) j := v]] = A"
      using sq by (simp add: square_def list_update_beyond)
    then show ?thesis using sq by (simp add: put2_def put_def get_def)
  qed
qed

lemma get2_put2:
  assumes "square n A" "0 \<le> i" "0 \<le> j" "0 \<le> a" "a < int n" "0 \<le> b" "b < int n"
  shows "get2 (put2 A i j v) a b = (if a = i \<and> b = j then v else get2 A a b)"
proof -
  have lA: "length A = n" and row: "length (A ! nat a) = n"
    using assms by (simp_all add: square_def list_all_length)
  have eq: "nat a = nat i \<longleftrightarrow> a = i" "nat b = nat j \<longleftrightarrow> b = j"
    using assms by auto
  have a: "nat a < length A" and b: "nat b < length (A ! nat a)"
    using assms lA row by auto
  have "put2 A i j v ! nat a ! nat b = (if a = i \<and> b = j then v else A ! nat a ! nat b)"
  proof (cases "a = i")
    case True
    have "(A ! nat i)[nat j := v] ! nat b = (if b = j then v else A ! nat i ! nat b)"
    proof (cases "b = j")
      case True
      then show ?thesis using b \<open>a = i\<close> by simp
    next
      case False
      then have "nat j \<noteq> nat b" using eq by simp
      then show ?thesis using False by simp
    qed
    then show ?thesis
      using a True assms(2,3) by (simp add: put2_def put_def get_def)
  next
    case False
    then have "nat i \<noteq> nat a" using eq by simp
    then show ?thesis
      using False assms(2) by (simp add: put2_def put_def get_def)
  qed
  then show ?thesis using assms by (simp add: get2_nth)
qed

lemma cellwise_put2:
  assumes "0 \<le> i" "0 \<le> j"
  shows "cellwise n (\<lambda>A. put2 A i j (g (get2 A i j))) (\<lambda>a b old. if a = i \<and> b = j then g old else old)"
  unfolding cellwise_def using assms by (auto simp: square_put2 get2_put2)

lemma cellwise_id: "cellwise n (\<lambda>A. A) (\<lambda>a b old. old)"
  by (simp add: cellwise_def)

lemma cellwise_comp:
  assumes "cellwise n F T" "cellwise n G U"
  shows "cellwise n (\<lambda>A. G (F A)) (\<lambda>a b old. U a b (T a b old))"
  using assms unfolding cellwise_def by auto

lemma cellwise_fold:
  assumes "\<And>x. x \<in> set xs \<Longrightarrow> cellwise n (F x) (T x)"
  shows "cellwise n (fold F xs) (\<lambda>a b. fold (\<lambda>x. T x a b) xs)"
  using assms
proof (induction xs rule: rev_induct)
  case Nil
  show ?case by (simp add: cellwise_def)
next
  case (snoc x xs)
  have 1: "cellwise n (fold F xs) (\<lambda>a b. fold (\<lambda>x. T x a b) xs)"
    using snoc by simp
  have 2: "cellwise n (F x) (T x)" using snoc by simp
  show ?case using cellwise_comp[OF 1 2] by (simp add: cellwise_def)
qed

lemma cellwiseD:
  assumes "cellwise n F T" "square n A" "0 \<le> a" "a < int n" "0 \<le> b" "b < int n"
  shows "get2 (F A) a b = T a b (get2 A a b)"
  using assms unfolding cellwise_def by blast

lemma cellwise_square: "cellwise n F T \<Longrightarrow> square n A \<Longrightarrow> square n (F A)"
  unfolding cellwise_def by blast

lemma cellwise_cong:
  assumes "cellwise n F T" "\<And>a b old. 0 \<le> a \<Longrightarrow> a < int n \<Longrightarrow> 0 \<le> b \<Longrightarrow> b < int n \<Longrightarrow> T a b old = U a b old"
  shows "cellwise n F U"
  using assms unfolding cellwise_def by auto

lemma py_range_empty: "b \<le> a \<Longrightarrow> py_range a b = []"
  by (simp add: py_range_def)

lemma py_range_snoc: "a \<le> b \<Longrightarrow> py_range a (b + 1) = py_range a b @ [b]"
  by (simp add: py_range_def upto_rec2)

lemma set_py_range [simp]: "set (py_range a b) = {a..<b}"
  by (auto simp: py_range_def)

lemma distinct_py_range [simp]: "distinct (py_range a b)"
  by (simp add: py_range_def)

lemma fold_if_range:
  "fold (\<lambda>j old. if b = c + j \<and> P then g j old else old) (py_range lo hi) old
   = (if c + lo \<le> b \<and> b < c + hi \<and> P then g (b - c) old else old)"
proof (cases "lo \<le> hi")
  case False
  then show ?thesis by (auto simp: py_range_empty)
next
  case True
  then show ?thesis
  proof (induction hi rule: int_ge_induct)
    case base
    show ?case by (auto simp: py_range_empty)
  next
    case (step k)
    show ?case
      unfolding py_range_snoc[OF step.hyps] fold_append comp_def step.IH
      using step.hyps by auto
  qed
qed

lemma fold_if_acc:
  "fold (\<lambda>k old. if P then old + t k else old) ks (old::real)
   = (if P then old + sum_list (map t ks) else old)"
  by (induction ks arbitrary: old) (auto simp: algebra_simps)

lemma fold_add: "fold (\<lambda>k s. s + t k) ks (s::real) = s + sum_list (map t ks)"
  by (induction ks arbitrary: s) (auto simp: algebra_simps)

subsection \<open>Finite-element matrices, entry by entry\<close>

lemma fold_if_range_gen:
  assumes "\<And>j. C j \<longleftrightarrow> b = c + j \<and> P"
  shows "fold (\<lambda>j old. if C j then g j old else old) (py_range lo hi) old
         = (if c + lo \<le> b \<and> b < c + hi \<and> P then g (b - c) old else old)"
  unfolding assms by (rule fold_if_range)

lemma cellwise_fold_range:
  assumes "\<And>x. lo \<le> x \<Longrightarrow> x < hi \<Longrightarrow> cellwise n (F x) (T x)"
  shows "cellwise n (fold F (py_range lo hi)) (\<lambda>a b. fold (\<lambda>x. T x a b) (py_range lo hi))"
  by (rule cellwise_fold) (use assms in auto)

lemma cellwise_loop:
  assumes F: "\<And>j. lo \<le> j \<Longrightarrow> j < hi \<Longrightarrow>
                cellwise n (F j) (\<lambda>a b old. if C j a b then g j a b old else old)"
    and C: "\<And>j a b. C j a b \<longleftrightarrow> idx a b = c + j \<and> P a b"
  shows "cellwise n (fold F (py_range lo hi))
           (\<lambda>a b old. if c + lo \<le> idx a b \<and> idx a b < c + hi \<and> P a b
                        then g (idx a b - c) a b old else old)"
proof -
  have "cellwise n (fold F (py_range lo hi))
          (\<lambda>a b. fold (\<lambda>j old. if C j a b then g j a b old else old) (py_range lo hi))"
    by (rule cellwise_fold_range) (rule F)
  then show ?thesis
    by (rule cellwise_cong) (rule fold_if_range_gen, rule C)
qed

lemma cellwise_loop_same:
  fixes t :: "'k \<Rightarrow> int \<Rightarrow> int \<Rightarrow> real"
  assumes F: "\<And>k. k \<in> set ks \<Longrightarrow>
                cellwise n (F k) (\<lambda>a b old. if C a b then old + t k a b else old)"
  shows "cellwise n (fold F ks)
           (\<lambda>a b old. if C a b then old + sum_list (map (\<lambda>k. t k a b) ks) else old)"
proof -
  have "cellwise n (fold F ks) (\<lambda>a b. fold (\<lambda>k old. if C a b then old + t k a b else old) ks)"
    by (rule cellwise_fold) (rule F)
  then show ?thesis
    by (rule cellwise_cong) (rule fold_if_acc)
qed

lemma square_zeros2: "0 \<le> n \<Longrightarrow> square (nat n) (zeros2 n n)"
  by (simp add: square_def zeros2_def zeros_def list_all_length)

lemma get2_zeros2: "0 \<le> a \<Longrightarrow> a < n \<Longrightarrow> 0 \<le> b \<Longrightarrow> b < m \<Longrightarrow> get2 (zeros2 n m) a b = 0"
  by (simp add: get2_nth zeros2_def zeros_def)

lemma cellwise_assign_row:
  assumes cell: "\<And>j M. F j M = put2 M i (c + j) (V j)" and i: "0 \<le> i" and c: "0 \<le> c + lo"
  shows "cellwise n (fold F (py_range lo hi))
           (\<lambda>a b old. if a = i \<and> c + lo \<le> b \<and> b < c + hi then V (b - c) else old)"
proof -
  have "cellwise n (fold F (py_range lo hi))
          (\<lambda>a b old. if c + lo \<le> b \<and> b < c + hi \<and> a = i then V (b - c) else old)"
  proof (rule cellwise_loop[where C = "\<lambda>j a b. a = i \<and> b = c + j" and idx = "\<lambda>a b. b"
        and P = "\<lambda>a b. a = i" and g = "\<lambda>j a b old. V j" and c = c])
    fix j :: int
    assume "lo \<le> j"
    then have "0 \<le> c + j" using c by simp
    from cellwise_put2[OF i this, of n "\<lambda>_. V j"]
    show "cellwise n (F j) (\<lambda>a b old. if a = i \<and> b = c + j then V j else old)"
      by (simp add: cell[abs_def])
  next
    fix j a b :: int
    show "(a = i \<and> b = c + j) \<longleftrightarrow> b = c + j \<and> a = i" by auto
  qed
  then show ?thesis by (rule cellwise_cong) auto
qed

lemma cellwise_assign_block:
  assumes cell: "\<And>i j M. F i j M = put2 M (r + i) (c + j) (V i j)"
    and r: "0 \<le> r + lo'" and c: "0 \<le> c + lo"
  shows "cellwise n (fold (\<lambda>i. fold (F i) (py_range lo hi)) (py_range lo' hi'))
           (\<lambda>a b old. if r + lo' \<le> a \<and> a < r + hi' \<and> c + lo \<le> b \<and> b < c + hi
                        then V (a - r) (b - c) else old)"
proof -
  have "cellwise n (fold (\<lambda>i. fold (F i) (py_range lo hi)) (py_range lo' hi'))
          (\<lambda>a b old. if r + lo' \<le> a \<and> a < r + hi' \<and> (c + lo \<le> b \<and> b < c + hi)
                       then V (a - r) (b - c) else old)"
  proof (rule cellwise_loop[where C = "\<lambda>i a b. a = r + i \<and> c + lo \<le> b \<and> b < c + hi"
        and idx = "\<lambda>a b. a" and P = "\<lambda>a b. c + lo \<le> b \<and> b < c + hi"
        and g = "\<lambda>i a b old. V i (b - c)" and c = r])
    fix i :: int
    assume "lo' \<le> i"
    then have "0 \<le> r + i" using r by simp
    then show "cellwise n (fold (F i) (py_range lo hi))
                 (\<lambda>a b old. if a = r + i \<and> c + lo \<le> b \<and> b < c + hi then V i (b - c) else old)"
      by (intro cellwise_assign_row cell c)
  next
    fix i a b :: int
    show "(a = r + i \<and> c + lo \<le> b \<and> b < c + hi) \<longleftrightarrow> a = r + i \<and> (c + lo \<le> b \<and> b < c + hi)"
      by auto
  qed
  then show ?thesis by (rule cellwise_cong) auto
qed

lemma fe_matrix_entry:
  assumes cell: "\<And>i j M. F i j M = put2 M i j (V i j)"
    and nx: "2 \<le> nx" and a: "0 \<le> a" "a < nx" and b: "0 \<le> b" "b < nx"
  shows "get2 (put2 (put2 (fold (\<lambda>i. fold (F i) (py_range 1 (nx - 1))) (py_range 1 (nx - 1)) (zeros2 nx nx))
                      0 0 c0) (nx - 1) (nx - 1) c1) a b =
     (if a = nx - 1 \<and> b = nx - 1 then c1
      else if a = 0 \<and> b = 0 then c0
      else if 1 \<le> a \<and> a < nx - 1 \<and> 1 \<le> b \<and> b < nx - 1 then V a b
      else 0)"
proof -
  define n where "n = nat nx"
  have n: "int n = nx" using nx by (simp add: n_def)
  define M1 where "M1 = fold (\<lambda>i. fold (F i) (py_range 1 (nx - 1))) (py_range 1 (nx - 1)) (zeros2 nx nx)"
  define M2 where "M2 = put2 M1 0 0 c0"
  have cw: "cellwise n (fold (\<lambda>i. fold (F i) (py_range 1 (nx - 1))) (py_range 1 (nx - 1)))
              (\<lambda>a b old. if 0 + 1 \<le> a \<and> a < 0 + (nx - 1) \<and> 0 + 1 \<le> b \<and> b < 0 + (nx - 1)
                        then V (a - 0) (b - 0) else old)"
    by (rule cellwise_assign_block) (simp_all add: cell)
  have sq0: "square n (zeros2 nx nx)" unfolding n_def using nx by (intro square_zeros2) simp
  have sq1: "square n M1" unfolding M1_def by (rule cellwise_square[OF cw sq0])
  have sq2: "square n M2" unfolding M2_def by (rule square_put2[OF sq1])
  have e1: "get2 M1 a b = (if 1 \<le> a \<and> a < nx - 1 \<and> 1 \<le> b \<and> b < nx - 1 then V a b else 0)"
    unfolding M1_def
    using cellwiseD[OF cw sq0, of a b] a b n
    by (simp add: get2_zeros2)
  have e2: "get2 M2 a b = (if a = 0 \<and> b = 0 then c0 else get2 M1 a b)"
    unfolding M2_def using get2_put2[OF sq1, of 0 0 a b] a b n by simp
  have e3: "get2 (put2 M2 (nx - 1) (nx - 1) c1) a b
      = (if a = nx - 1 \<and> b = nx - 1 then c1 else get2 M2 a b)"
    using get2_put2[OF sq2, of "nx - 1" "nx - 1" a b] a b n nx by simp
  have "get2 (put2 M2 (nx - 1) (nx - 1) c1) a b =
     (if a = nx - 1 \<and> b = nx - 1 then c1
      else if a = 0 \<and> b = 0 then c0
      else if 1 \<le> a \<and> a < nx - 1 \<and> 1 \<le> b \<and> b < nx - 1 then V a b
      else 0)"
    unfolding e3 e2 e1 by auto
  then show ?thesis unfolding M2_def M1_def .
qed

lemma fe_matrix_square:
  assumes cell: "\<And>i j M. F i j M = put2 M i j (V i j)" and nx: "0 \<le> nx"
  shows "square (nat nx) (put2 (put2 (fold (\<lambda>i. fold (F i) (py_range 1 (nx - 1))) (py_range 1 (nx - 1)) (zeros2 nx nx))
                      0 0 c0) (nx - 1) (nx - 1) c1)"
proof -
  have cw: "cellwise (nat nx) (fold (\<lambda>i. fold (F i) (py_range 1 (nx - 1))) (py_range 1 (nx - 1)))
              (\<lambda>a b old. if 0 + 1 \<le> a \<and> a < 0 + (nx - 1) \<and> 0 + 1 \<le> b \<and> b < 0 + (nx - 1)
                        then V (a - 0) (b - 0) else old)"
    by (rule cellwise_assign_block) (simp_all add: cell)
  show ?thesis
    by (intro square_put2 cellwise_square[OF cw] square_zeros2 nx)
qed

lemma fe_M_cell_put: "fe_M_cell ro h i j M = put2 M i j (fe_M_val ro h i j)"
  by (simp add: fe_M_cell_def fe_M_val_def)

lemma fe_K_cell_put: "fe_K_cell mu h i j K = put2 K i j (fe_K_val mu h i j)"
  by (simp add: fe_K_cell_def fe_K_val_def)

lemma fe_M_entry:
  assumes "2 \<le> nx" and "0 \<le> a" "a < nx" and "0 \<le> b" "b < nx"
  shows "get2 (fe_M nx ro h) a b =
     (if a = nx - 1 \<and> b = nx - 1 then get ro (nx - 1) * get h (nx - 2) / 3
      else if a = 0 \<and> b = 0 then get ro 0 * get h 0 / 3
      else if 1 \<le> a \<and> a < nx - 1 \<and> 1 \<le> b \<and> b < nx - 1 then fe_M_val ro h a b
      else 0)"
  unfolding fe_M_def Let_def
  by (rule fe_matrix_entry[OF fe_M_cell_put assms])

lemma fe_K_entry:
  assumes "2 \<le> nx" and "0 \<le> a" "a < nx" and "0 \<le> b" "b < nx"
  shows "get2 (fe_K nx mu h) a b =
     (if a = nx - 1 \<and> b = nx - 1 then get mu (nx - 1) / get h (nx - 2)
      else if a = 0 \<and> b = 0 then get mu 0 / get h 0
      else if 1 \<le> a \<and> a < nx - 1 \<and> 1 \<le> b \<and> b < nx - 1 then fe_K_val mu h a b
      else 0)"
  unfolding fe_K_def Let_def
  by (rule fe_matrix_entry[OF fe_K_cell_put assms])

lemma square_fe_M: "0 \<le> nx \<Longrightarrow> square (nat nx) (fe_M nx ro h)"
  unfolding fe_M_def Let_def by (rule fe_matrix_square[OF fe_M_cell_put])

lemma square_fe_K: "0 \<le> nx \<Longrightarrow> square (nat nx) (fe_K nx mu h)"
  unfolding fe_K_def Let_def by (rule fe_matrix_square[OF fe_K_cell_put])

lemma fe_M_val_sym: "fe_M_val ro h a b = fe_M_val ro h b a"
  by (auto simp: fe_M_val_def)

lemma fe_K_val_sym: "fe_K_val mu h a b = fe_K_val mu h b a"
  by (auto simp: fe_K_val_def)

lemma fe_M_symmetric:
  assumes "2 \<le> nx" "0 \<le> a" "a < nx" "0 \<le> b" "b < nx"
  shows "get2 (fe_M nx ro h) a b = get2 (fe_M nx ro h) b a"
  using assms fe_M_val_sym[of ro h a b] by (simp add: fe_M_entry)

lemma fe_K_symmetric:
  assumes "2 \<le> nx" "0 \<le> a" "a < nx" "0 \<le> b" "b < nx"
  shows "get2 (fe_K nx mu h) a b = get2 (fe_K nx mu h) b a"
  using assms fe_K_val_sym[of mu h a b] by (simp add: fe_K_entry)

lemma cellwise_row:
  assumes F: "\<And>j. lo \<le> j \<Longrightarrow> j < hi \<Longrightarrow>
      cellwise n (F j) (\<lambda>a b old. if a = i \<and> b = c + j then G j old else old)"
  shows "cellwise n (fold F (py_range lo hi))
           (\<lambda>a b old. if a = i \<and> c + lo \<le> b \<and> b < c + hi then G (b - c) old else old)"
proof -
  have "cellwise n (fold F (py_range lo hi))
          (\<lambda>a b old. if c + lo \<le> b \<and> b < c + hi \<and> a = i then G (b - c) old else old)"
    by (rule cellwise_loop[where C = "\<lambda>j a b. a = i \<and> b = c + j" and idx = "\<lambda>a b. b"
        and P = "\<lambda>a b. a = i" and g = "\<lambda>j a b old. G j old" and c = c, OF F]) auto
  then show ?thesis by (rule cellwise_cong) auto
qed

lemma cellwise_block:
  assumes F: "\<And>i j. lo' \<le> i \<Longrightarrow> i < hi' \<Longrightarrow> lo \<le> j \<Longrightarrow> j < hi \<Longrightarrow>
      cellwise n (F i j) (\<lambda>a b old. if a = r + i \<and> b = c + j then G i j old else old)"
  shows "cellwise n (fold (\<lambda>i. fold (F i) (py_range lo hi)) (py_range lo' hi'))
           (\<lambda>a b old. if r + lo' \<le> a \<and> a < r + hi' \<and> c + lo \<le> b \<and> b < c + hi
                        then G (a - r) (b - c) old else old)"
proof -
  have "cellwise n (fold (\<lambda>i. fold (F i) (py_range lo hi)) (py_range lo' hi'))
          (\<lambda>a b old. if r + lo' \<le> a \<and> a < r + hi' \<and> (c + lo \<le> b \<and> b < c + hi)
                       then G (a - r) (b - c) old else old)"
  proof (rule cellwise_loop[where C = "\<lambda>i a b. a = r + i \<and> c + lo \<le> b \<and> b < c + hi"
        and idx = "\<lambda>a b. a" and P = "\<lambda>a b. c + lo \<le> b \<and> b < c + hi"
        and g = "\<lambda>i a b old. G i (b - c) old" and c = r])
    fix i :: int
    assume "lo' \<le> i" "i < hi'"
    then show "cellwise n (fold (F i) (py_range lo hi))
                 (\<lambda>a b old. if a = r + i \<and> c + lo \<le> b \<and> b < c + hi then G i (b - c) old else old)"
      by (intro cellwise_row F)
  next
    fix i a b :: int
    show "(a = r + i \<and> c + lo \<le> b \<and> b < c + hi) \<longleftrightarrow> a = r + i \<and> (c + lo \<le> b \<and> b < c + hi)"
      by auto
  qed
  then show ?thesis by (rule cellwise_cong) auto
qed

lemma cellwise_se_hetero_Ke:
  "cellwise n (se_hetero_Ke mu w Ji J l1d N xe)
     (\<lambda>a b old. if 0 \<le> a \<and> a \<le> N \<and> 0 \<le> b \<and> b \<le> N then se_hetero_KeC mu w Ji J l1d N xe a b else old)"
proof -
  have "cellwise n (se_hetero_Ke mu w Ji J l1d N xe)
     (\<lambda>a b old. if 1 + (- 1) \<le> a \<and> a < 1 + N \<and> 1 + (- 1) \<le> b \<and> b < 1 + N
                  then se_hetero_KeC mu w Ji J l1d N xe (a - 1 + 1) (b - 1 + 1) else old)"
    unfolding se_hetero_Ke_def
  proof (rule cellwise_block[where G = "\<lambda>i j old. se_hetero_KeC mu w Ji J l1d N xe (i + 1) (j + 1)"])
    fix i j :: int
    assume "- 1 \<le> i" "- 1 \<le> j"
    then have "0 \<le> 1 + i" "0 \<le> 1 + j" by simp_all
    from cellwise_put2[OF this, of n "\<lambda>_. se_hetero_KeC mu w Ji J l1d N xe (i + 1) (j + 1)"]
    show "cellwise n (\<lambda>Ke. let sum = 0;
                  sum = fold (\<lambda>k sum. sum + get mu (k + 1 + xe) * get w (k + 1) * Ji ^ 2 * J
                                          * get2 l1d (i + 1) (k + 1) * get2 l1d (j + 1) (k + 1))
                             (py_range (- 1) N) sum
              in put2 Ke (i + 1) (j + 1) sum)
           (\<lambda>a b old. if a = 1 + i \<and> b = 1 + j then se_hetero_KeC mu w Ji J l1d N xe (i + 1) (j + 1) else old)"
      by (simp add: Let_def fold_add se_hetero_KeC_def add.commute[of 1])
  qed
  then show ?thesis by (rule cellwise_cong) auto
qed

lemma cellwise_se_hetero_add_block:
  assumes "0 \<le> i0 - 1" "0 \<le> j0 - 1"
  shows "cellwise n (se_hetero_add_block Ke N i0 j0)
     (\<lambda>a b old. if i0 - 1 \<le> a \<and> a < i0 + N \<and> j0 - 1 \<le> b \<and> b < j0 + N
                  then old + get2 Ke (a - i0 + 1) (b - j0 + 1) else old)"
proof -
  have "cellwise n (se_hetero_add_block Ke N i0 j0)
     (\<lambda>a b old. if i0 + (- 1) \<le> a \<and> a < i0 + N \<and> j0 + (- 1) \<le> b \<and> b < j0 + N
                  then old + get2 Ke (a - i0 + 1) (b - j0 + 1) else old)"
    unfolding se_hetero_add_block_def
  proof (rule cellwise_block[where G = "\<lambda>i j old. old + get2 Ke (i + 1) (j + 1)"])
    fix i j :: int
    assume "- 1 \<le> i" "- 1 \<le> j"
    then have "0 \<le> i0 + i" "0 \<le> j0 + j" using assms by simp_all
    from cellwise_put2[OF this, of n "\<lambda>old. old + get2 Ke (i + 1) (j + 1)"]
    show "cellwise n (\<lambda>K. put2 K (i0 + i) (j0 + j) (get2 K (i0 + i) (j0 + j) + get2 Ke (i + 1) (j + 1)))
           (\<lambda>a b old. if a = i0 + i \<and> b = j0 + j then old + get2 Ke (i + 1) (j + 1) else old)"
      by simp
  qed
  then show ?thesis by (rule cellwise_cong) auto
qed

subsection \<open>Spectral-element stiffness assembly (heterogeneous)\<close>

lemma se_hetero_K_loop_0:
  "se_hetero_K_loop mu w Ji J l1d N ng 0 = \<lparr>hk_K = zeros2 ng ng, hk_Ke = zeros2 (N + 1) (N + 1), hk_xe = 0\<rparr>"
  by (simp add: se_hetero_K_loop_def py_range_empty)

lemma se_hetero_K_loop_Suc:
  "0 \<le> m \<Longrightarrow> se_hetero_K_loop mu w Ji J l1d N ng (m + 1)
     = se_hetero_K_elem mu w Ji J l1d N (m + 1) (se_hetero_K_loop mu w Ji J l1d N ng m)"
  using py_range_snoc[of 1 "m + 1"] by (simp add: se_hetero_K_loop_def)

lemma assembled_0: "assembled Kel N 0 a b = 0"
  by (simp add: assembled_def py_range_empty)

lemma assembled_Suc:
  "0 \<le> m \<Longrightarrow> assembled Kel N (m + 1) a b
     = assembled Kel N m a b
       + (if in_block N (m + 1) a b then Kel (m + 1) (a - m * N) (b - m * N) else 0)"
  using py_range_snoc[of 1 "m + 1"] by (simp add: assembled_def)

lemma se_hetero_K_loop_inv:
  assumes N: "0 \<le> N" and ng: "0 \<le> ng" and m: "0 \<le> m"
  shows "hk_xe (se_hetero_K_loop mu w Ji J l1d N ng m) = m * N
       \<and> square (nat ng) (hk_K (se_hetero_K_loop mu w Ji J l1d N ng m))
       \<and> square (nat (N + 1)) (hk_Ke (se_hetero_K_loop mu w Ji J l1d N ng m))
       \<and> (\<forall>a b. 0 \<le> a \<and> a < ng \<and> 0 \<le> b \<and> b < ng \<longrightarrow>
            get2 (hk_K (se_hetero_K_loop mu w Ji J l1d N ng m)) a b
            = assembled (se_hetero_Kel mu w Ji J l1d N) N m a b)"
  using m
proof (induction m rule: int_ge_induct)
  case base
  show ?case
    using N ng by (simp add: se_hetero_K_loop_0 assembled_0 square_zeros2 get2_zeros2)
next
  case (step m)
  define s where "s = se_hetero_K_loop mu w Ji J l1d N ng m"
  define Ke' where "Ke' = se_hetero_Ke mu w Ji J l1d N (hk_xe s) (hk_Ke s)"
  have xe: "hk_xe s = m * N" and sqK: "square (nat ng) (hk_K s)" and sqKe: "square (nat (N + 1)) (hk_Ke s)"
    and ent: "\<And>a b. 0 \<le> a \<Longrightarrow> a < ng \<Longrightarrow> 0 \<le> b \<Longrightarrow> b < ng \<Longrightarrow>
            get2 (hk_K s) a b = assembled (se_hetero_Kel mu w Ji J l1d N) N m a b"
    using step.IH unfolding s_def by auto
  have s': "se_hetero_K_loop mu w Ji J l1d N ng (m + 1)
      = \<lparr>hk_K = se_hetero_add_block Ke' N (m * N + 1) (m * N + 1) (hk_K s), hk_Ke = Ke', hk_xe = m * N + N\<rparr>"
    unfolding se_hetero_K_loop_Suc[OF step.hyps] s_def[symmetric]
    by (simp add: se_hetero_K_elem_def Let_def Ke'_def xe)
  have sqKe': "square (nat (N + 1)) Ke'"
    unfolding Ke'_def by (rule cellwise_square[OF cellwise_se_hetero_Ke sqKe])
  have Ke': "\<And>a b. 0 \<le> a \<Longrightarrow> a \<le> N \<Longrightarrow> 0 \<le> b \<Longrightarrow> b \<le> N \<Longrightarrow>
      get2 Ke' a b = se_hetero_KeC mu w Ji J l1d N (m * N) a b"
    unfolding Ke'_def using cellwiseD[OF cellwise_se_hetero_Ke sqKe] N by (simp add: xe)
  have mN: "0 \<le> m * N" using step.hyps N by simp
  have cw: "cellwise (nat ng) (se_hetero_add_block Ke' N (m * N + 1) (m * N + 1))
     (\<lambda>a b old. if m * N + 1 - 1 \<le> a \<and> a < m * N + 1 + N \<and> m * N + 1 - 1 \<le> b \<and> b < m * N + 1 + N
                  then old + get2 Ke' (a - (m * N + 1) + 1) (b - (m * N + 1) + 1) else old)"
    by (rule cellwise_se_hetero_add_block) (use mN in simp_all)
  have blk: "\<And>a b. in_block N (m + 1) a b \<longleftrightarrow> m * N \<le> a \<and> a < m * N + 1 + N \<and> m * N \<le> b \<and> b < m * N + 1 + N"
    by (auto simp: in_block_def algebra_simps)
  have "get2 (se_hetero_add_block Ke' N (m * N + 1) (m * N + 1) (hk_K s)) a b
        = assembled (se_hetero_Kel mu w Ji J l1d N) N (m + 1) a b"
    if ab: "0 \<le> a" "a < ng" "0 \<le> b" "b < ng" for a b
  proof -
    have "get2 (se_hetero_add_block Ke' N (m * N + 1) (m * N + 1) (hk_K s)) a b
       = (if in_block N (m + 1) a b then get2 (hk_K s) a b + get2 Ke' (a - m * N) (b - m * N)
          else get2 (hk_K s) a b)"
      using cellwiseD[OF cw sqK, of a b] ab ng by (simp add: blk)
    also have "\<dots> = assembled (se_hetero_Kel mu w Ji J l1d N) N (m + 1) a b"
      unfolding assembled_Suc[OF step.hyps] using ab by (auto simp: ent blk Ke' se_hetero_Kel_def)
    finally show ?thesis .
  qed
  moreover have "square (nat ng) (se_hetero_add_block Ke' N (m * N + 1) (m * N + 1) (hk_K s))"
    by (rule cellwise_square[OF cw sqK])
  ultimately show ?case
    unfolding s' using sqKe' by (simp add: algebra_simps)
qed

lemma se_hetero_K_entry:
  assumes "0 \<le> N" "0 \<le> ne" "0 \<le> a" "a < se_ng N ne" "0 \<le> b" "b < se_ng N ne"
  shows "get2 (se_hetero_K mu w Ji J l1d N ne) a b = assembled (se_hetero_Kel mu w Ji J l1d N) N ne a b"
proof -
  have ng: "0 \<le> se_ng N ne" using assms by simp
  have "se_hetero_K mu w Ji J l1d N ne = hk_K (se_hetero_K_loop mu w Ji J l1d N (se_ng N ne) ne)"
    by (simp add: se_hetero_K_def se_hetero_K_loop_def Let_def)
  then show ?thesis
    using se_hetero_K_loop_inv[OF assms(1) ng assms(2), of mu w Ji J l1d] assms by simp
qed

lemma square_se_hetero_K:
  assumes "0 \<le> N" "0 \<le> ne" "0 \<le> se_ng N ne"
  shows "square (nat (se_ng N ne)) (se_hetero_K mu w Ji J l1d N ne)"
proof -
  have "se_hetero_K mu w Ji J l1d N ne = hk_K (se_hetero_K_loop mu w Ji J l1d N (se_ng N ne) ne)"
    by (simp add: se_hetero_K_def se_hetero_K_loop_def Let_def)
  then show ?thesis
    using se_hetero_K_loop_inv[OF assms(1) assms(3) assms(2), of mu w Ji J l1d] by simp
qed

lemma se_hetero_KeC_sym: "se_hetero_KeC mu w Ji J l1d N xe a b = se_hetero_KeC mu w Ji J l1d N xe b a"
  unfolding se_hetero_KeC_def by (rule arg_cong[where f = sum_list]) (simp add: mult_ac)

lemma in_block_sym: "in_block N e a b \<longleftrightarrow> in_block N e b a"
  by (auto simp: in_block_def)

lemma assembled_sym:
  assumes "\<And>e i j. 0 \<le> i \<Longrightarrow> i \<le> N \<Longrightarrow> 0 \<le> j \<Longrightarrow> j \<le> N \<Longrightarrow> Kel e i j = Kel e j i"
  shows "assembled Kel N m a b = assembled Kel N m b a"
proof -
  have "(if in_block N e a b then Kel e (a - (e - 1) * N) (b - (e - 1) * N) else 0)
      = (if in_block N e b a then Kel e (b - (e - 1) * N) (a - (e - 1) * N) else 0)" for e
  proof (cases "in_block N e a b")
    case True
    then have "0 \<le> a - (e - 1) * N" "a - (e - 1) * N \<le> N" "0 \<le> b - (e - 1) * N" "b - (e - 1) * N \<le> N"
      by (simp_all add: in_block_def algebra_simps)
    then show ?thesis using True assms in_block_sym[of N e a b] by simp
  next
    case False
    then show ?thesis using in_block_sym[of N e a b] by simp
  qed
  then show ?thesis unfolding assembled_def by simp
qed

lemma se_hetero_K_symmetric:
  assumes "0 \<le> N" "0 \<le> ne" "0 \<le> a" "a < se_ng N ne" "0 \<le> b" "b < se_ng N ne"
  shows "get2 (se_hetero_K mu w Ji J l1d N ne) a b = get2 (se_hetero_K mu w Ji J l1d N ne) b a"
proof -
  have "assembled (se_hetero_Kel mu w Ji J l1d N) N ne a b = assembled (se_hetero_Kel mu w Ji J l1d N) N ne b a"
    by (rule assembled_sym) (simp add: se_hetero_Kel_def se_hetero_KeC_sym)
  then show ?thesis using assms by (simp add: se_hetero_K_entry)
qed

subsection \<open>Spectral-element stiffness assembly (homogeneous)\<close>

lemma cellwise_se_homo_Ke_loops:
  "cellwise n (fold (\<lambda>i. fold (\<lambda>j. fold (\<lambda>k Ke.
             put2 Ke i j (get2 Ke i j + mu * get w k * Ji * get2 l1d i k * get2 l1d j k))
           (py_range 0 (N + 1))) (py_range 0 (N + 1))) (py_range 0 (N + 1)))
     (\<lambda>a b old. if 0 \<le> a \<and> a \<le> N \<and> 0 \<le> b \<and> b \<le> N then old + se_homo_KeC mu w Ji l1d N a b else old)"
proof -
  have "cellwise n (fold (\<lambda>i. fold (\<lambda>j. fold (\<lambda>k Ke.
             put2 Ke i j (get2 Ke i j + mu * get w k * Ji * get2 l1d i k * get2 l1d j k))
           (py_range 0 (N + 1))) (py_range 0 (N + 1))) (py_range 0 (N + 1)))
     (\<lambda>a b old. if 0 + 0 \<le> a \<and> a < 0 + (N + 1) \<and> 0 + 0 \<le> b \<and> b < 0 + (N + 1)
                  then old + se_homo_KeC mu w Ji l1d N (a - 0) (b - 0) else old)"
  proof (rule cellwise_block[where G = "\<lambda>i j old. old + se_homo_KeC mu w Ji l1d N i j"])
    fix i j :: int
    assume ij: "0 \<le> i" "0 \<le> j"
    have "cellwise n (fold (\<lambda>k Ke. put2 Ke i j (get2 Ke i j + mu * get w k * Ji * get2 l1d i k * get2 l1d j k))
                        (py_range 0 (N + 1)))
            (\<lambda>a b old. if a = i \<and> b = j
                         then old + sum_list (map (\<lambda>k. mu * get w k * Ji * get2 l1d i k * get2 l1d j k) (py_range 0 (N + 1)))
                         else old)"
      by (rule cellwise_loop_same[where C = "\<lambda>a b. a = i \<and> b = j"
            and t = "\<lambda>k a b. mu * get w k * Ji * get2 l1d i k * get2 l1d j k"])
         (rule cellwise_put2[OF ij])
    then show "cellwise n (fold (\<lambda>k Ke. put2 Ke i j (get2 Ke i j + mu * get w k * Ji * get2 l1d i k * get2 l1d j k))
                        (py_range 0 (N + 1)))
            (\<lambda>a b old. if a = 0 + i \<and> b = 0 + j then old + se_homo_KeC mu w Ji l1d N i j else old)"
      unfolding se_homo_KeC_def by simp
  qed
  then show ?thesis by (rule cellwise_cong) auto
qed

lemma se_homo_Ke_entry:
  assumes "0 \<le> a" "a \<le> N" "0 \<le> b" "b \<le> N"
  shows "get2 (se_homo_Ke mu w Ji l1d N) a b = se_homo_KeC mu w Ji l1d N a b"
proof -
  have N: "0 \<le> N + 1" using assms by simp
  show ?thesis
    unfolding se_homo_Ke_def
    using cellwiseD[OF cellwise_se_homo_Ke_loops square_zeros2[OF N], of a b mu w Ji l1d N] assms
    by (simp add: get2_zeros2)
qed

lemma square_se_homo_Ke: "0 \<le> N + 1 \<Longrightarrow> square (nat (N + 1)) (se_homo_Ke mu w Ji l1d N)"
  unfolding se_homo_Ke_def
  by (rule cellwise_square[OF cellwise_se_homo_Ke_loops square_zeros2])

lemma se_homo_KeC_sym: "se_homo_KeC mu w Ji l1d N a b = se_homo_KeC mu w Ji l1d N b a"
  unfolding se_homo_KeC_def by (rule arg_cong[where f = sum_list]) (simp add: mult_ac)

lemma cellwise_se_homo_block:
  assumes "0 \<le> (k - 1) * N"
  shows "cellwise n (se_homo_block Ke N k)
     (\<lambda>a b old. if in_block N k a b then get2 Ke (a - (k - 1) * N) (b - (k - 1) * N) else old)"
proof -
  have "cellwise n (se_homo_block Ke N k)
     (\<lambda>a b old. if ((k - 1) * N + 1) + (- 1) \<le> a \<and> a < ((k - 1) * N + 1) + N
                     \<and> ((k - 1) * N + 1) + (- 1) \<le> b \<and> b < ((k - 1) * N + 1) + N
                  then get2 Ke (a - ((k - 1) * N + 1) + 1) (b - ((k - 1) * N + 1) + 1) else old)"
    unfolding se_homo_block_def Let_def
  proof (rule cellwise_block[where G = "\<lambda>i j old. get2 Ke (i + 1) (j + 1)"])
    fix i j :: int
    assume "- 1 \<le> i" "- 1 \<le> j"
    then have "0 \<le> (k - 1) * N + 1 + i" "0 \<le> (k - 1) * N + 1 + j" using assms by simp_all
    from cellwise_put2[OF this, of n "\<lambda>old. get2 Ke (i + 1) (j + 1)"]
    show "cellwise n (\<lambda>K. put2 K ((k - 1) * N + 1 + i) ((k - 1) * N + 1 + j) (get2 Ke (i + 1) (j + 1)))
           (\<lambda>a b old. if a = (k - 1) * N + 1 + i \<and> b = (k - 1) * N + 1 + j then get2 Ke (i + 1) (j + 1) else old)"
      by simp
  qed
  then show ?thesis by (rule cellwise_cong) (auto simp: in_block_def algebra_simps)
qed

lemma cellwise_se_homo_patch:
  assumes "0 \<le> (k - 1) * N"
  shows "cellwise n (se_homo_patch Ke N k)
     (\<lambda>a b old. if a = (k - 1) * N \<and> b = (k - 1) * N then get2 Ke 0 0 + get2 Ke N N else old)"
  unfolding se_homo_patch_def Let_def
  by (rule cellwise_put2[OF assms assms, of n "\<lambda>old. get2 Ke 0 0 + get2 Ke N N"])

lemma fold_if_const:
  "fold (\<lambda>k old. if C k then v else old) ks old = (if \<exists>k\<in>set ks. C k then v else old)"
  by (induction ks arbitrary: old) auto

lemma cellwise_se_homo_patches:
  assumes "0 \<le> N"
  shows "cellwise n (fold (se_homo_patch Ke N) (py_range 2 (ne + 1)))
     (\<lambda>a b old. if \<exists>k. 2 \<le> k \<and> k \<le> ne \<and> a = (k - 1) * N \<and> b = (k - 1) * N
                  then get2 Ke 0 0 + get2 Ke N N else old)"
proof -
  have "cellwise n (fold (se_homo_patch Ke N) (py_range 2 (ne + 1)))
          (\<lambda>a b. fold (\<lambda>k old. if a = (k - 1) * N \<and> b = (k - 1) * N then get2 Ke 0 0 + get2 Ke N N else old)
                    (py_range 2 (ne + 1)))"
    by (rule cellwise_fold_range, rule cellwise_se_homo_patch) (use assms in simp)
  then show ?thesis
    by (rule cellwise_cong) (auto simp: fold_if_const)
qed

lemma cellwise_se_homo_blocks_square:
  assumes "0 \<le> N" "square n K"
  shows "square n (fold (se_homo_block Ke N) (py_range 1 (ne + 1)) K)"
proof -
  have "cellwise n (fold (se_homo_block Ke N) (py_range 1 (ne + 1)))
          (\<lambda>a b. fold (\<lambda>k old. if in_block N k a b then get2 Ke (a - (k - 1) * N) (b - (k - 1) * N) else old)
                    (py_range 1 (ne + 1)))"
    by (rule cellwise_fold_range, rule cellwise_se_homo_block) (use assms in simp)
  then show ?thesis by (rule cellwise_square) (rule assms)
qed

lemma se_homo_K_shared:
  assumes N: "0 \<le> N" and e: "1 \<le> e" "e < ne"
  shows "get2 (se_homo_K Ke N ne) (e * N) (e * N) = get2 Ke N N + get2 Ke 0 0"
proof -
  have ng: "0 \<le> se_ng N ne" using assms by (simp add: se_ng_def)
  define K1 where "K1 = fold (se_homo_block Ke N) (py_range 1 (ne + 1)) (zeros2 (se_ng N ne) (se_ng N ne))"
  have sq: "square (nat (se_ng N ne)) K1"
    unfolding K1_def by (rule cellwise_se_homo_blocks_square[OF N square_zeros2[OF ng]])
  have K: "se_homo_K Ke N ne = fold (se_homo_patch Ke N) (py_range 2 (ne + 1)) K1"
    by (simp add: se_homo_K_def Let_def K1_def)
  have eN: "0 \<le> e * N" using N e by simp
  have "e * N \<le> (ne - 1) * N" using N e by (intro mult_right_mono) auto
  moreover have "0 \<le> N" by (rule N)
  ultimately have lt: "e * N < int (nat (se_ng N ne))" using ng by (simp add: se_ng_def)
  have ex: "\<exists>k. 2 \<le> k \<and> k \<le> ne \<and> e * N = (k - 1) * N \<and> e * N = (k - 1) * N"
    by (rule exI[of _ "e + 1"]) (use e in simp)
  show ?thesis
    unfolding K using cellwiseD[OF cellwise_se_homo_patches[OF N] sq eN lt eN lt, of Ke ne] ex
    by simp
qed

subsection \<open>Sums of element blocks\<close>

lemma assembled_outside:
  assumes N: "0 \<le> N" and m: "0 \<le> m" and out: "m * N < a \<or> m * N < b"
  shows "assembled Kel N m a b = 0"
  using m out
proof (induction m rule: int_ge_induct)
  case base
  show ?case by (simp add: assembled_0)
next
  case (step m)
  have "m * N \<le> (m + 1) * N" using N by (simp add: algebra_simps)
  then have "m * N < a \<or> m * N < b" using step.prems by auto
  then have "assembled Kel N m a b = 0" by (rule step.IH)
  moreover have "\<not> in_block N (m + 1) a b" using step.prems by (auto simp: in_block_def)
  ultimately show ?case by (simp add: assembled_Suc[OF step.hyps])
qed

lemma assembled_last_node:
  assumes N: "1 \<le> N" and m: "1 \<le> m"
  shows "assembled Kel N m (m * N) (m * N) = Kel m N N"
proof -
  have m1: "0 \<le> m - 1" using m by simp
  have lt: "(m - 1) * N < m * N" using N by (simp add: algebra_simps)
  have "assembled Kel N (m - 1) (m * N) (m * N) = 0"
    by (rule assembled_outside) (use N m1 lt in auto)
  moreover have "in_block N m (m * N) (m * N)" using lt by (simp add: in_block_def)
  moreover have "m * N - (m - 1) * N = N" by (simp add: algebra_simps)
  ultimately show ?thesis using assembled_Suc[OF m1, of Kel N "m * N" "m * N"] by simp
qed

lemma assembled_shared_node:
  assumes N: "1 \<le> N" and e: "1 \<le> e" "e < ne"
  shows "assembled Kel N ne (e * N) (e * N) = Kel e N N + Kel (e + 1) 0 0"
proof -
  have "e + 1 \<le> ne" using e by simp
  then show ?thesis
  proof (induction ne rule: int_ge_induct)
    case base
    have e0: "0 \<le> e" using e by simp
    have "in_block N (e + 1) (e * N) (e * N)" using N by (simp add: in_block_def algebra_simps)
    then show ?case
      using assembled_Suc[OF e0, of Kel N "e * N" "e * N"] assembled_last_node[OF N e(1), of Kel]
      by simp
  next
    case (step m)
    have m0: "0 \<le> m" using step.hyps e by simp
    have "e * N < m * N" using step.hyps N by (intro mult_strict_right_mono) auto
    then have "\<not> in_block N (m + 1) (e * N) (e * N)" by (simp add: in_block_def)
    then show ?case using assembled_Suc[OF m0, of Kel N "e * N" "e * N"] step.IH by simp
  qed
qed

lemma shared_node_elements:
  assumes N: "1 \<le> N" and e: "1 \<le> e" "e < ne"
  shows "filter (\<lambda>k. (k - 1) * N \<le> e * N \<and> e * N \<le> k * N) (py_range 1 (ne + 1)) = [e, e + 1]"
proof -
  have iff: "(k - 1) * N \<le> e * N \<and> e * N \<le> k * N \<longleftrightarrow> k = e \<or> k = e + 1" for k
  proof -
    have "(k - 1) * N \<le> e * N \<longleftrightarrow> k - 1 \<le> e" using N by (simp add: mult_le_cancel_right)
    moreover have "e * N \<le> k * N \<longleftrightarrow> e \<le> k" using N by (simp add: mult_le_cancel_right)
    ultimately show ?thesis by auto
  qed
  have split: "py_range 1 (ne + 1) = py_range 1 e @ [e, e + 1] @ py_range (e + 2) (ne + 1)"
  proof -
    have "[1..ne] = [1..e - 1] @ [e..ne]" using e by (intro upto_split1) auto
    also have "[e..ne] = e # [e + 1..ne]" using e by (simp add: upto_rec1)
    also have "[e + 1..ne] = (e + 1) # [e + 2..ne]"
    proof -
      have "e + 1 + 1 = e + 2" by simp
      moreover have "[e + 1..ne] = (e + 1) # [e + 1 + 1..ne]"
        by (rule upto_rec1) (use e in simp)
      ultimately show ?thesis by (simp only:)
    qed
    finally show ?thesis by (simp add: py_range_def)
  qed
  show ?thesis
    unfolding iff split by (auto simp: filter_empty_conv)
qed

lemma se_homo_blocks_inv:
  assumes N: "1 \<le> N" and ng: "0 \<le> ng" and m: "0 \<le> m"
  shows "square (nat ng) (fold (se_homo_block Ke N) (py_range 1 (m + 1)) (zeros2 ng ng))
       \<and> (\<forall>a b. 0 \<le> a \<and> a < ng \<and> 0 \<le> b \<and> b < ng \<longrightarrow>
            get2 (fold (se_homo_block Ke N) (py_range 1 (m + 1)) (zeros2 ng ng)) a b
            = assembled (\<lambda>e. get2 Ke) N m a b
              - (if a = b \<and> (\<exists>e. 1 \<le> e \<and> e < m \<and> a = e * N) then get2 Ke N N else 0))"
  using m
proof (induction m rule: int_ge_induct)
  case base
  show ?case using ng by (auto simp: py_range_empty square_zeros2 get2_zeros2 assembled_0)
next
  case (step m)
  define H where "H = fold (se_homo_block Ke N) (py_range 1 (m + 1)) (zeros2 ng ng)"
  have sqH: "square (nat ng) H"
    and ent: "\<And>a b. 0 \<le> a \<Longrightarrow> a < ng \<Longrightarrow> 0 \<le> b \<Longrightarrow> b < ng \<Longrightarrow>
       get2 H a b = assembled (\<lambda>e. get2 Ke) N m a b
              - (if a = b \<and> (\<exists>e. 1 \<le> e \<and> e < m \<and> a = e * N) then get2 Ke N N else 0)"
    using step.IH unfolding H_def by auto
  have N0: "0 \<le> N" using N by simp
  have mN: "0 \<le> (m + 1 - 1) * N" using step.hyps N by simp
  have H': "fold (se_homo_block Ke N) (py_range 1 (m + 1 + 1)) (zeros2 ng ng) = se_homo_block Ke N (m + 1) H"
    using py_range_snoc[of 1 "m + 1"] step.hyps by (simp add: H_def)
  note cw = cellwise_se_homo_block[OF mN, of "nat ng" Ke]
  have "get2 (se_homo_block Ke N (m + 1) H) a b
        = assembled (\<lambda>e. get2 Ke) N (m + 1) a b
              - (if a = b \<and> (\<exists>e. 1 \<le> e \<and> e < m + 1 \<and> a = e * N) then get2 Ke N N else 0)"
    if ab: "0 \<le> a" "a < ng" "0 \<le> b" "b < ng" for a b
  proof (cases "in_block N (m + 1) a b")
    case True
    then have lo: "m * N \<le> a" "m * N \<le> b" by (simp_all add: in_block_def)
    have new: "get2 (se_homo_block Ke N (m + 1) H) a b = get2 Ke (a - m * N) (b - m * N)"
      using cellwiseD[OF cw sqH, of a b] ab ng True by simp
    have key: "assembled (\<lambda>e. get2 Ke) N m a b
         = (if a = b \<and> (\<exists>e. 1 \<le> e \<and> e < m + 1 \<and> a = e * N) then get2 Ke N N else 0)"
    proof (cases "a = m * N \<and> b = m * N \<and> 1 \<le> m")
      case True
      then have "assembled (\<lambda>e. get2 Ke) N m a b = get2 Ke N N"
        using assembled_last_node[OF N, of m "\<lambda>e. get2 Ke"] by simp
      moreover have "\<exists>e. 1 \<le> e \<and> e < m + 1 \<and> a = e * N"
        by (rule exI[of _ m]) (use True in simp)
      ultimately show ?thesis using True by simp
    next
      case False
      have z: "assembled (\<lambda>e. get2 Ke) N m a b = 0"
      proof (cases "m = 0")
        case True
        then show ?thesis by (simp add: assembled_0)
      next
        case m0: False
        then have "1 \<le> m" using step.hyps by simp
        then have "m * N < a \<or> m * N < b" using False lo by auto
        then show ?thesis by (intro assembled_outside N0 step.hyps)
      qed
      have nd: "\<not> (a = b \<and> (\<exists>e. 1 \<le> e \<and> e < m + 1 \<and> a = e * N))"
      proof
        assume h: "a = b \<and> (\<exists>e. 1 \<le> e \<and> e < m + 1 \<and> a = e * N)"
        then obtain e where e: "1 \<le> e" "e \<le> m" "a = e * N" by auto
        have "e * N \<le> m * N" using e N0 by (intro mult_right_mono) auto
        then have "a = m * N" "b = m * N" using lo e h by auto
        moreover have "1 \<le> m" using e by simp
        ultimately show False using False by simp
      qed
      show ?thesis unfolding z if_not_P[OF nd] by simp
    qed
    show ?thesis
      unfolding new assembled_Suc[OF step.hyps] using True key by simp
  next
    case False
    have new: "get2 (se_homo_block Ke N (m + 1) H) a b = get2 H a b"
      using cellwiseD[OF cw sqH, of a b] ab ng False by simp
    have "(\<exists>e. 1 \<le> e \<and> e < m + 1 \<and> a = e * N) \<longleftrightarrow> (\<exists>e. 1 \<le> e \<and> e < m \<and> a = e * N)" if "a = b"
    proof
      assume "\<exists>e. 1 \<le> e \<and> e < m + 1 \<and> a = e * N"
      then obtain e where e: "1 \<le> e" "e \<le> m" "a = e * N" by auto
      have "e \<noteq> m"
      proof
        assume "e = m"
        then have "in_block N (m + 1) a b" using e that N0 by (simp add: in_block_def algebra_simps)
        then show False using False by simp
      qed
      then show "\<exists>e. 1 \<le> e \<and> e < m \<and> a = e * N" using e by (intro exI[of _ e]) auto
    next
      assume "\<exists>e. 1 \<le> e \<and> e < m \<and> a = e * N"
      then show "\<exists>e. 1 \<le> e \<and> e < m + 1 \<and> a = e * N" by auto
    qed
    then show ?thesis
      unfolding new assembled_Suc[OF step.hyps] using False ent[OF ab] by auto
  qed
  moreover have "square (nat ng) (se_homo_block Ke N (m + 1) H)"
    by (rule cellwise_square[OF cw sqH])
  ultimately show ?case unfolding H' by simp
qed

text \<open>Assigning the blocks and patching the shared entries gives the sum of the element blocks.\<close>

lemma se_homo_K_entry:
  assumes N: "1 \<le> N" and ne: "0 \<le> ne" and ab: "0 \<le> a" "a < se_ng N ne" "0 \<le> b" "b < se_ng N ne"
  shows "get2 (se_homo_K Ke N ne) a b = assembled (\<lambda>e. get2 Ke) N ne a b"
proof -
  have N0: "0 \<le> N" using N by simp
  have ng: "0 \<le> se_ng N ne" using ab by simp
  define K1 where "K1 = fold (se_homo_block Ke N) (py_range 1 (ne + 1)) (zeros2 (se_ng N ne) (se_ng N ne))"
  have sq: "square (nat (se_ng N ne)) K1"
    and ent: "get2 K1 a b = assembled (\<lambda>e. get2 Ke) N ne a b
              - (if a = b \<and> (\<exists>e. 1 \<le> e \<and> e < ne \<and> a = e * N) then get2 Ke N N else 0)"
    using se_homo_blocks_inv[OF N ng ne, of Ke] ab unfolding K1_def by auto
  have K: "se_homo_K Ke N ne = fold (se_homo_patch Ke N) (py_range 2 (ne + 1)) K1"
    by (simp add: se_homo_K_def Let_def K1_def)
  have fin: "get2 (se_homo_K Ke N ne) a b =
      (if \<exists>k. 2 \<le> k \<and> k \<le> ne \<and> a = (k - 1) * N \<and> b = (k - 1) * N
       then get2 Ke 0 0 + get2 Ke N N else get2 K1 a b)"
    unfolding K using cellwiseD[OF cellwise_se_homo_patches[OF N0] sq, of a b Ke ne] ab ng by simp
  show ?thesis
  proof (cases "\<exists>k. 2 \<le> k \<and> k \<le> ne \<and> a = (k - 1) * N \<and> b = (k - 1) * N")
    case True
    then obtain k where k: "2 \<le> k" "k \<le> ne" "a = (k - 1) * N" "b = (k - 1) * N" by auto
    have "assembled (\<lambda>e. get2 Ke) N ne ((k - 1) * N) ((k - 1) * N) = get2 Ke N N + get2 Ke 0 0"
      by (rule assembled_shared_node[OF N]) (use k in auto)
    then show ?thesis using True k fin by simp
  next
    case False
    have nd: "\<not> (a = b \<and> (\<exists>e. 1 \<le> e \<and> e < ne \<and> a = e * N))"
    proof
      assume "a = b \<and> (\<exists>e. 1 \<le> e \<and> e < ne \<and> a = e * N)"
      then obtain e where e: "a = b" "1 \<le> e" "e < ne" "a = e * N" by auto
      have "2 \<le> e + 1 \<and> e + 1 \<le> ne \<and> a = (e + 1 - 1) * N \<and> b = (e + 1 - 1) * N"
        using e by simp
      then show False using False by blast
    qed
    show ?thesis unfolding fin ent if_not_P[OF False] if_not_P[OF nd] by simp
  qed
qed

subsection \<open>Symmetry\<close>

lemma transpose_square:
  assumes "square n A"
  shows "transpose A = map (\<lambda>i. map (\<lambda>j. A ! j ! i) [0..<n]) [0..<n]"
proof -
  have l: "length A = n" and r: "\<forall>i<length A. length (A ! i) = n"
    using assms by (simp_all add: square_def list_all_length)
  have "transpose A = map (\<lambda>i. map (\<lambda>j. A ! j ! i) [0..<length A]) [0..<n]"
    by (rule transpose_rectangle) (use l r in auto)
  then show ?thesis by (simp add: l)
qed

lemma square_eq_map:
  assumes "square n A"
  shows "A = map (\<lambda>i. map (\<lambda>j. A ! i ! j) [0..<n]) [0..<n]"
proof (rule nth_equalityI)
  show "length A = length (map (\<lambda>i. map (\<lambda>j. A ! i ! j) [0..<n]) [0..<n])"
    using assms by (simp add: square_def)
next
  fix i assume "i < length A"
  then have i: "i < n" and li: "length (A ! i) = n"
    using assms by (simp_all add: square_def list_all_length)
  have "A ! i = map (\<lambda>j. A ! i ! j) [0..<n]"
    by (rule nth_equalityI) (simp_all add: li)
  then show "A ! i = map (\<lambda>i. map (\<lambda>j. A ! i ! j) [0..<n]) [0..<n] ! i"
    using i by simp
qed

lemma symmetricI:
  assumes sq: "square n A"
    and sym: "\<And>a b. 0 \<le> a \<Longrightarrow> a < int n \<Longrightarrow> 0 \<le> b \<Longrightarrow> b < int n \<Longrightarrow> get2 A a b = get2 A b a"
  shows "symmetric A"
proof -
  have "A ! j ! i = A ! i ! j" if "i < n" "j < n" for i j
    using sym[of "int j" "int i"] that by (simp add: get2_nth)
  then have "map (\<lambda>i. map (\<lambda>j. A ! j ! i) [0..<n]) [0..<n] = map (\<lambda>i. map (\<lambda>j. A ! i ! j) [0..<n]) [0..<n]"
    by simp
  then show ?thesis
    unfolding symmetric_def transpose_square[OF sq] using square_eq_map[OF sq] by simp
qed

lemma symmetric_nth:
  assumes "symmetric A" "square n A" "i < n" "j < n"
  shows "A ! i ! j = A ! j ! i"
proof -
  have "A ! i ! j = transpose A ! i ! j" using assms(1) by (simp add: symmetric_def)
  also have "\<dots> = A ! j ! i" using assms by (simp add: transpose_square[OF assms(2)])
  finally show ?thesis .
qed

lemma symmetric_fe_M: "2 \<le> nx \<Longrightarrow> symmetric (fe_M nx ro h)"
  by (rule symmetricI[OF square_fe_M]) (simp_all add: fe_M_symmetric)

lemma symmetric_fe_K: "2 \<le> nx \<Longrightarrow> symmetric (fe_K nx mu h)"
  by (rule symmetricI[OF square_fe_K]) (simp_all add: fe_K_symmetric)

lemma se_ng_nonneg: "0 \<le> N \<Longrightarrow> 1 \<le> ne \<Longrightarrow> 0 \<le> se_ng N ne"
  by (simp add: se_ng_def)

lemma symmetric_se_hetero_K:
  assumes "0 \<le> N" "1 \<le> ne"
  shows "symmetric (se_hetero_K mu w Ji J l1d N ne)"
proof (rule symmetricI[OF square_se_hetero_K])
  show "0 \<le> N" "0 \<le> ne" "0 \<le> se_ng N ne" using assms se_ng_nonneg[OF assms] by simp_all
next
  fix a b :: int
  assume "0 \<le> a" "a < int (nat (se_ng N ne))" "0 \<le> b" "b < int (nat (se_ng N ne))"
  then show "get2 (se_hetero_K mu w Ji J l1d N ne) a b = get2 (se_hetero_K mu w Ji J l1d N ne) b a"
    using assms by (intro se_hetero_K_symmetric) (auto split: if_splits)
qed

lemma square_se_homo_K:
  assumes "0 \<le> N" "0 \<le> se_ng N ne"
  shows "square (nat (se_ng N ne)) (se_homo_K Ke N ne)"
proof -
  have "cellwise (nat (se_ng N ne)) (fold (se_homo_patch Ke N) (py_range 2 (ne + 1)))
     (\<lambda>a b old. if \<exists>k. 2 \<le> k \<and> k \<le> ne \<and> a = (k - 1) * N \<and> b = (k - 1) * N
                  then get2 Ke 0 0 + get2 Ke N N else old)"
    by (rule cellwise_se_homo_patches[OF assms(1)])
  then show ?thesis
    unfolding se_homo_K_def Let_def
    by (rule cellwise_square) (rule cellwise_se_homo_blocks_square[OF assms(1) square_zeros2[OF assms(2)]])
qed

lemma symmetric_se_homo_K:
  assumes N: "1 \<le> N" and ne: "1 \<le> ne"
    and Ke: "\<And>i j. 0 \<le> i \<Longrightarrow> i \<le> N \<Longrightarrow> 0 \<le> j \<Longrightarrow> j \<le> N \<Longrightarrow> get2 Ke i j = get2 Ke j i"
  shows "symmetric (se_homo_K Ke N ne)"
proof (rule symmetricI[OF square_se_homo_K])
  show "0 \<le> N" "0 \<le> se_ng N ne" using N ne by (simp_all add: se_ng_def)
next
  fix a b :: int
  assume ab: "0 \<le> a" "a < int (nat (se_ng N ne))" "0 \<le> b" "b < int (nat (se_ng N ne))"
  have ne0: "0 \<le> ne" using ne by simp
  have "get2 (se_homo_K Ke N ne) a b = assembled (\<lambda>e. get2 Ke) N ne a b"
    by (rule se_homo_K_entry[OF N ne0]) (use ab in \<open>auto split: if_splits\<close>)
  also have "\<dots> = assembled (\<lambda>e. get2 Ke) N ne b a"
    by (rule assembled_sym) (rule Ke)
  also have "\<dots> = get2 (se_homo_K Ke N ne) b a"
    by (rule se_homo_K_entry[OF N ne0, symmetric]) (use ab in \<open>auto split: if_splits\<close>)
  finally show "get2 (se_homo_K Ke N ne) a b = get2 (se_homo_K Ke N ne) b a" .
qed

lemma se_homo_Ke_sym:
  assumes "0 \<le> i" "i \<le> N" "0 \<le> j" "j \<le> N"
  shows "get2 (se_homo_Ke mu w Ji l1d N) i j = get2 (se_homo_Ke mu w Ji l1d N) j i"
  using assms by (simp add: se_homo_Ke_entry se_homo_KeC_sym[of mu w Ji l1d N i j])

lemma cellwise_se_Minv_loop:
  "cellwise n (fold (\<lambda>i Minv. put2 Minv i i (1 / get M i)) (py_range 0 ng))
     (\<lambda>a b old. if 0 \<le> a \<and> a < ng \<and> a = b then 1 / get M a else old)"
proof -
  have "cellwise n (fold (\<lambda>i Minv. put2 Minv i i (1 / get M i)) (py_range 0 ng))
     (\<lambda>a b old. if 0 + 0 \<le> a \<and> a < 0 + ng \<and> a = b then 1 / get M (a - 0) else old)"
  proof (rule cellwise_loop[where C = "\<lambda>i a b. a = i \<and> b = i" and idx = "\<lambda>a b. a"
        and P = "\<lambda>a b. a = b" and g = "\<lambda>i a b old. 1 / get M i" and c = 0])
    fix i :: int
    assume i: "0 \<le> i"
    show "cellwise n (\<lambda>Minv. put2 Minv i i (1 / get M i)) (\<lambda>a b old. if a = i \<and> b = i then 1 / get M i else old)"
      by (rule cellwise_put2[OF i i, of n "\<lambda>old. 1 / get M i"])
  next
    fix i a b :: int
    show "(a = i \<and> b = i) \<longleftrightarrow> a = 0 + i \<and> a = b" by auto
  qed
  then show ?thesis by (rule cellwise_cong) auto
qed

lemma square_identity: "0 \<le> n \<Longrightarrow> square (nat n) (identity n)"
  by (simp add: square_def identity_def py_range_def list_all_length)

lemma nth_py_range: "0 \<le> a \<Longrightarrow> a < n \<Longrightarrow> py_range 0 n ! nat a = a"
  by (simp add: py_range_def)

lemma length_py_range: "length (py_range 0 n) = nat n"
  by (simp add: py_range_def)

lemma get2_identity:
  assumes "0 \<le> a" "a < n" "0 \<le> b" "b < n"
  shows "get2 (identity n) a b = (if a = b then 1 else 0)"
  using assms by (simp add: get2_nth identity_def length_py_range nth_py_range)

lemma symmetric_se_Minv:
  assumes "0 \<le> ng"
  shows "symmetric (se_Minv M ng)"
proof (rule symmetricI[of "nat ng"])
  show "square (nat ng) (se_Minv M ng)"
    unfolding se_Minv_def Let_def
    by (rule cellwise_square[OF cellwise_se_Minv_loop square_identity[OF assms]])
next
  fix a b :: int
  assume ab: "0 \<le> a" "a < int (nat ng)" "0 \<le> b" "b < int (nat ng)"
  then have ab': "a < ng" "b < ng" using assms by simp_all
  show "get2 (se_Minv M ng) a b = get2 (se_Minv M ng) b a"
    unfolding se_Minv_def Let_def
    using cellwiseD[OF cellwise_se_Minv_loop square_identity[OF assms] ab, of M ng]
      cellwiseD[OF cellwise_se_Minv_loop square_identity[OF assms] ab(3,4) ab(1,2), of M ng]
      ab ab'
    by (auto simp: get2_identity)
qed

subsection \<open>Assembly of shared degrees of freedom; symmetry of the assembled matrices\<close>

lemma assembled_cong:
  assumes "\<And>e i j. 0 \<le> i \<Longrightarrow> i \<le> N \<Longrightarrow> 0 \<le> j \<Longrightarrow> j \<le> N \<Longrightarrow> Kel e i j = Kel' e i j"
  shows "assembled Kel N m a b = assembled Kel' N m a b"
proof -
  have "(if in_block N e a b then Kel e (a - (e - 1) * N) (b - (e - 1) * N) else 0)
      = (if in_block N e a b then Kel' e (a - (e - 1) * N) (b - (e - 1) * N) else 0)" for e
  proof (cases "in_block N e a b")
    case True
    then have "0 \<le> a - (e - 1) * N" "a - (e - 1) * N \<le> N" "0 \<le> b - (e - 1) * N" "b - (e - 1) * N \<le> N"
      by (simp_all add: in_block_def algebra_simps)
    then show ?thesis using assms by simp
  next
    case False
    then show ?thesis by simp
  qed
  then show ?thesis unfolding assembled_def by simp
qed

lemma se_hetero_elem_entry:
  assumes "0 \<le> i" "i \<le> N" "0 \<le> j" "j \<le> N"
  shows "get2 (se_hetero_elem mu w Ji J l1d N e) i j = se_hetero_Kel mu w Ji J l1d N e i j"
proof -
  have N: "0 \<le> N + 1" using assms by simp
  show ?thesis
    unfolding se_hetero_elem_def se_hetero_Kel_def
    using cellwiseD[OF cellwise_se_hetero_Ke square_zeros2[OF N], of i j mu w Ji J l1d N] assms
    by simp
qed

text \<open>
  C3.  Both stiffness assemblies produce, entry by entry, the sum of the element blocks
  placed with the last node of element \<open>e\<close> on the first node of element \<open>e + 1\<close>.  The
  entry of a shared degree of freedom \<open>e * N\<close> (for \<open>1 \<le> e < ne\<close>) is the sum of the
  contribution of element \<open>e\<close> at its last node and of element \<open>e + 1\<close> at its first node, and
  these two are the only elements whose nodes include it.
\<close>

theorem shared_dof_sums_both_elements:
  assumes "1 \<le> N" and "1 \<le> e" and "e < ne"
    and "length mu = nat (ne * N + 1)" and "length w = nat (N + 1)"
    and "square (nat (N + 1)) l1d" and "square (nat (N + 1)) Ke"
  shows "get2 (se_hetero_K mu w Ji J l1d N ne) (e * N) (e * N)
           = get2 (se_hetero_elem mu w Ji J l1d N e) N N
           + get2 (se_hetero_elem mu w Ji J l1d N (e + 1)) 0 0
       \<and> get2 (se_homo_K Ke N ne) (e * N) (e * N) = get2 Ke N N + get2 Ke 0 0
       \<and> filter (\<lambda>k. (k - 1) * N \<le> e * N \<and> e * N \<le> k * N) (py_range 1 (ne + 1)) = [e, e + 1]
       \<and> (\<forall>a b. 0 \<le> a \<and> a < se_ng N ne \<and> 0 \<le> b \<and> b < se_ng N ne \<longrightarrow>
             get2 (se_hetero_K mu w Ji J l1d N ne) a b
               = assembled (\<lambda>e. get2 (se_hetero_elem mu w Ji J l1d N e)) N ne a b
           \<and> get2 (se_homo_K Ke N ne) a b = assembled (\<lambda>e. get2 Ke) N ne a b)"
proof -
  have N0: "0 \<le> N" and ne0: "0 \<le> ne" using assms by simp_all
  have eN: "0 \<le> e * N" using assms by simp
  have "e * N \<le> (ne - 1) * N" using assms by (intro mult_right_mono) auto
  then have lt: "e * N < se_ng N ne" using N0 by (simp add: se_ng_def)
  have het: "get2 (se_hetero_K mu w Ji J l1d N ne) a b
               = assembled (\<lambda>e. get2 (se_hetero_elem mu w Ji J l1d N e)) N ne a b"
    if "0 \<le> a" "a < se_ng N ne" "0 \<le> b" "b < se_ng N ne" for a b
  proof -
    have "assembled (\<lambda>e. get2 (se_hetero_elem mu w Ji J l1d N e)) N ne a b
        = assembled (se_hetero_Kel mu w Ji J l1d N) N ne a b"
      by (rule assembled_cong) (rule se_hetero_elem_entry)
    then show ?thesis using se_hetero_K_entry[OF N0 ne0 that, of mu w Ji J l1d] by simp
  qed
  have "get2 (se_hetero_K mu w Ji J l1d N ne) (e * N) (e * N)
           = get2 (se_hetero_elem mu w Ji J l1d N e) N N
           + get2 (se_hetero_elem mu w Ji J l1d N (e + 1)) 0 0"
    unfolding het[OF eN lt eN lt] by (rule assembled_shared_node[OF assms(1-3)])
  moreover have "get2 (se_homo_K Ke N ne) (e * N) (e * N) = get2 Ke N N + get2 Ke 0 0"
    by (rule se_homo_K_shared[OF N0 assms(2,3)])
  moreover note shared_node_elements[OF assms(1-3)]
  moreover have "get2 (se_homo_K Ke N ne) a b = assembled (\<lambda>e. get2 Ke) N ne a b"
    if "0 \<le> a" "a < se_ng N ne" "0 \<le> b" "b < se_ng N ne" for a b
    by (rule se_homo_K_entry[OF assms(1) ne0 that])
  ultimately show ?thesis using het by blast
qed

theorem shared_dof_sums_both_elements_witness:
  "get2 (se_hetero_K [1, 2, 3, 4] [1, 1] 1 1 [[- 1 / 2, - 1 / 2], [1 / 2, 1 / 2]] 1 3) (1 * 1) (1 * 1)
     = get2 (se_hetero_elem [1, 2, 3, 4] [1, 1] 1 1 [[- 1 / 2, - 1 / 2], [1 / 2, 1 / 2]] 1 1) 1 1
     + get2 (se_hetero_elem [1, 2, 3, 4] [1, 1] 1 1 [[- 1 / 2, - 1 / 2], [1 / 2, 1 / 2]] 1 (1 + 1)) 0 0
   \<and> get2 (se_homo_K [[1 / 2, - 1 / 2], [- 1 / 2, 1 / 2]] 1 3) (1 * 1) (1 * 1)
     = get2 [[1 / 2, - 1 / 2], [- 1 / 2, 1 / 2 :: real]] 1 1 + get2 [[1 / 2, - 1 / 2], [- 1 / 2, 1 / 2 :: real]] 0 0
   \<and> filter (\<lambda>k. (k - 1) * 1 \<le> 1 * 1 \<and> 1 * 1 \<le> k * 1) (py_range 1 (3 + 1)) = [1, 1 + 1 :: int]"
proof -
  have h: "(1::int) \<le> 1" "(1::int) < 3" by simp_all
  have r: "length [1, 2, 3, 4 :: real] = nat (3 * 1 + 1)" "length [1, 1 :: real] = nat (1 + 1)"
    "square (nat (1 + 1)) [[- 1 / 2, - 1 / 2], [1 / 2, 1 / 2 :: real]]"
    "square (nat (1 + 1)) [[1 / 2, - 1 / 2], [- 1 / 2, 1 / 2 :: real]]"
    by (simp_all add: square_def)
  show ?thesis
    using shared_dof_sums_both_elements[OF h(1) h(1) h(2) r, of 1 1]
    by blast
qed

text \<open>
  C5.  The assembled mass and stiffness matrices equal their transposes: the finite-element
  mass and stiffness matrix for arbitrary density, shear modulus and element sizes, the
  spectral-element stiffness matrix of the heterogeneous and of the homogeneous notebook, and
  the inverse of the diagonal spectral-element mass matrix.
\<close>

theorem assembled_matrices_symmetric:
  assumes "2 \<le> nx" and "1 \<le> N" and "1 \<le> ne"
    and "length ro = nat nx" and "length mu = nat nx" and "length h = nat (nx - 1)"
    and "length mus = nat (ne * N + 1)" and "length w = nat (N + 1)"
    and "square (nat (N + 1)) l1d" and "length M = nat (2 * se_ng N ne)"
  shows "symmetric (fe_M nx ro h) \<and> symmetric (fe_K nx mu h)
       \<and> symmetric (se_hetero_K mus w Ji J l1d N ne)
       \<and> symmetric (se_homo_K (se_homo_Ke mu0 w Ji l1d N) N ne)
       \<and> symmetric (se_Minv M (se_ng N ne))"
proof -
  have N0: "0 \<le> N" using assms by simp
  have "symmetric (se_homo_K (se_homo_Ke mu0 w Ji l1d N) N ne)"
    by (rule symmetric_se_homo_K[OF assms(2,3)]) (rule se_homo_Ke_sym)
  moreover have "symmetric (se_Minv M (se_ng N ne))"
    by (rule symmetric_se_Minv) (rule se_ng_nonneg[OF N0 assms(3)])
  ultimately show ?thesis
    using symmetric_fe_M[OF assms(1)] symmetric_fe_K[OF assms(1)] symmetric_se_hetero_K[OF N0 assms(3)]
    by simp
qed

theorem assembled_matrices_symmetric_witness:
  "symmetric (fe_M 3 [1, 2, 3] [1, 2]) \<and> symmetric (fe_K 3 [4, 5, 6] [1, 2])
   \<and> symmetric (se_hetero_K [1, 2, 3] [1, 1] 1 1 [[- 1 / 2, - 1 / 2], [1 / 2, 1 / 2]] 1 2)
   \<and> symmetric (se_homo_K (se_homo_Ke 3 [1, 1] 1 [[- 1 / 2, - 1 / 2], [1 / 2, 1 / 2]] 1) 1 2)
   \<and> symmetric (se_Minv [1, 2, 1, 0, 0, 0] (se_ng 1 2))"
proof -
  have h: "(2::int) \<le> 3" "(1::int) \<le> 1" "(1::int) \<le> 2"
    "length [1, 2, 3 :: real] = nat 3" "length [4, 5, 6 :: real] = nat 3"
    "length [1, 2 :: real] = nat (3 - 1)" "length [1, 2, 3 :: real] = nat (2 * 1 + 1)"
    "length [1, 1 :: real] = nat (1 + 1)"
    "square (nat (1 + 1)) [[- 1 / 2, - 1 / 2], [1 / 2, 1 / 2 :: real]]"
    "length [1, 2, 1, 0, 0, 0 :: real] = nat (2 * se_ng 1 2)"
    by (simp_all add: square_def se_ng_def)
  show ?thesis by (rule assembled_matrices_symmetric[OF h])
qed

subsection \<open>Snapshots\<close>

lemma lt_n_snapshots: "0 < idisp \<Longrightarrow> j < n_snapshots n idisp \<longleftrightarrow> j * idisp < n"
proof -
  assume i: "0 < idisp"
  have "j < n_snapshots n idisp \<longleftrightarrow> real_of_int j < real_of_int n / real_of_int idisp"
    by (simp add: n_snapshots_def less_ceiling_iff)
  also have "\<dots> \<longleftrightarrow> real_of_int j * real_of_int idisp < real_of_int n"
    using i by (simp add: pos_less_divide_eq)
  also have "\<dots> \<longleftrightarrow> j * idisp < n"
    by (metis of_int_less_iff of_int_mult)
  finally show ?thesis .
qed

lemma n_snapshots_mono: "0 < idisp \<Longrightarrow> n \<le> m \<Longrightarrow> n_snapshots n idisp \<le> n_snapshots m idisp"
  unfolding n_snapshots_def by (intro ceiling_mono divide_right_mono) auto

lemma get_put:
  assumes "0 \<le> i" "0 \<le> j" "j < int (length xs)"
  shows "get (put xs i v) j = (if i = j then v else get xs j)"
  using assms by (auto simp: get_def put_def nth_list_update nat_eq_iff)

lemma snapshots_generic:
  fixes body :: "int \<Rightarrow> 's \<Rightarrow> 's" and res :: "'s \<Rightarrow> 'r list" and cur :: "'s \<Rightarrow> 'r"
  assumes body: "\<And>it s. res (body it s)
        = (if it mod idisp = 0 then put (res s) (it div idisp) (cur (body it s)) else res s)"
    and idisp: "0 < idisp" and n: "0 \<le> n"
    and len: "n_snapshots n idisp \<le> int (length (res s0))"
  shows "length (res (time_loop body n s0)) = length (res s0)
       \<and> (\<forall>j. 0 \<le> j \<and> j * idisp < n \<longrightarrow>
             get (res (time_loop body n s0)) j = cur (time_loop body (j * idisp + 1) s0))"
  using n len
proof (induction n rule: int_ge_induct)
  case base
  have "\<not> (0 \<le> j \<and> j * idisp < 0)" for j
    using idisp by (simp add: mult_nonneg_nonneg not_less)
  then show ?case by (auto simp: time_loop_0)
next
  case (step n)
  define s where "s = time_loop body n s0"
  have "n_snapshots n idisp \<le> n_snapshots (n + 1) idisp"
    by (rule n_snapshots_mono[OF idisp]) simp
  then have IH: "length (res s) = length (res s0)"
    "\<And>j. 0 \<le> j \<Longrightarrow> j * idisp < n \<Longrightarrow> get (res s) j = cur (time_loop body (j * idisp + 1) s0)"
    using step unfolding s_def by auto
  have s': "time_loop body (n + 1) s0 = body n s"
    by (simp add: time_loop_Suc[OF step.hyps] s_def)
  have len': "length (res (body n s)) = length (res s0)"
    by (simp add: body IH(1))
  have "get (res (body n s)) j = cur (time_loop body (j * idisp + 1) s0)"
    if j: "0 \<le> j" "j * idisp < n + 1" for j
  proof -
    have "j < n_snapshots (n + 1) idisp" using j by (simp add: lt_n_snapshots[OF idisp])
    then have jl: "j < int (length (res s))" using step.prems IH(1) by simp
    show ?thesis
    proof (cases "j * idisp = n")
      case True
      then have "n mod idisp = 0" "n div idisp = j" using idisp by auto
      then show ?thesis using j jl True s' by (simp add: body get_put)
    next
      case False
      then have lt: "j * idisp < n" using j by simp
      have "n div idisp \<noteq> j" if "n mod idisp = 0"
      proof
        assume "n div idisp = j"
        then have "j * idisp = n" using that by (metis add.right_neutral div_mult_mod_eq)
        then show False using False by simp
      qed
      moreover have "0 \<le> n div idisp" using step.hyps idisp by (simp add: pos_imp_zdiv_nonneg_iff)
      ultimately show ?thesis using j jl IH(2)[OF j(1) lt] by (simp add: body get_put)
    qed
  qed
  then show ?case unfolding s' using len' by simp
qed

subsection \<open>The Chebyshev differentiation matrix\<close>

lemma fold_put_range:
  assumes "0 \<le> lo" "0 \<le> a" "a < int (length x0)"
  shows "length (fold (\<lambda>i x. put x i (f i)) (py_range lo hi) x0) = length x0
       \<and> get (fold (\<lambda>i x. put x i (f i)) (py_range lo hi) x0) a
           = (if lo \<le> a \<and> a < hi then f a else get x0 a)"
proof (cases "lo \<le> hi")
  case False
  then show ?thesis by (auto simp: py_range_empty)
next
  case True
  then show ?thesis
  proof (induction hi rule: int_ge_induct)
    case base
    show ?case by (auto simp: py_range_empty)
  next
    case (step k)
    have k: "0 \<le> k" using step.hyps assms by simp
    show ?case
      unfolding py_range_snoc[OF step.hyps] fold_append comp_def
      using step.IH assms k step.hyps by (auto simp: get_put)
  qed
qed

lemma get_zeros: "0 \<le> i \<Longrightarrow> i < n \<Longrightarrow> get (zeros n) i = 0"
  by (simp add: get_def zeros_def)

lemma cheby_x_nth:
  assumes "0 \<le> i" "i \<le> nx"
  shows "get (cheby_x nx) i = cos (pi * real_of_int i / real_of_int nx)"
  unfolding cheby_x_def
  using fold_put_range[of 0 i "zeros (nx + 1)" "\<lambda>ix. cos (pi * real_of_int ix / real_of_int nx)" "nx + 1"] assms
  by (simp add: get_zeros)

lemma cheby_cx_nth:
  assumes "1 \<le> nx" "0 \<le> i" "i \<le> nx"
  shows "get (cheby_cx nx) i = (if i = 0 \<or> i = nx then 2 else 1)"
proof -
  define c0 where "c0 = put (put (zeros (nx + 1)) 0 2) nx 2"
  have l: "int (length c0) = nx + 1" using assms by (simp add: c0_def)
  have g: "get c0 i = (if i = 0 \<or> i = nx then 2 else 0)"
    using assms by (simp add: c0_def get_put get_zeros)
  have "cheby_cx nx = fold (\<lambda>i cx. put cx i 1) (py_range 1 nx) c0"
    by (simp add: cheby_cx_def Let_def c0_def)
  then show ?thesis
    using fold_put_range[of 1 i c0 "\<lambda>i. 1" nx] assms l g by auto
qed

lemma cheby_nodes_distinct:
  assumes "1 \<le> nx" "0 \<le> i" "i \<le> nx" "0 \<le> j" "j \<le> nx" "i \<noteq> j"
  shows "cos (pi * real_of_int i / real_of_int nx) \<noteq> cos (pi * real_of_int j / real_of_int nx)"
proof
  assume eq: "cos (pi * real_of_int i / real_of_int nx) = cos (pi * real_of_int j / real_of_int nx)"
  have nx: "0 < real_of_int nx" using assms by simp
  have bi: "0 \<le> pi * real_of_int i / real_of_int nx" "pi * real_of_int i / real_of_int nx \<le> pi"
    using assms nx by (simp_all add: divide_le_eq mult_left_le)
  have bj: "0 \<le> pi * real_of_int j / real_of_int nx" "pi * real_of_int j / real_of_int nx \<le> pi"
    using assms nx by (simp_all add: divide_le_eq mult_left_le)
  have "pi * real_of_int i / real_of_int nx = pi * real_of_int j / real_of_int nx"
    by (rule cos_inj_pi[OF bi bj eq])
  then have "real_of_int i = real_of_int j" using nx by simp
  then show False using assms by simp
qed

lemma cheby_cell_put: "cheby_cell nx x cx i j D = put2 D (0 + i) (0 + j) (cheby_val nx x cx i j)"
  by (simp add: cheby_cell_def cheby_val_def)

lemma square_replicate: "square n (replicate n (replicate n v))"
  by (simp add: square_def list_all_length)

lemma get2_replicate:
  "0 \<le> a \<Longrightarrow> a < int n \<Longrightarrow> 0 \<le> b \<Longrightarrow> b < int m \<Longrightarrow> get2 (replicate n (replicate m v)) a b = v"
  by (simp add: get2_nth)

lemma cheby_loops_entry:
  assumes "0 \<le> nx" "0 \<le> i" "i \<le> nx" "0 \<le> j" "j \<le> nx"
  shows "get2 (cheby_loops nx) i j = cheby_val nx (cheby_x nx) (cheby_cx nx) i j"
    and "square (nat (nx + 1)) (cheby_loops nx)"
proof -
  have cw: "cellwise (nat (nx + 1))
      (fold (\<lambda>i. fold (cheby_cell nx (cheby_x nx) (cheby_cx nx) i) (py_range 0 (nx + 1))) (py_range 0 (nx + 1)))
      (\<lambda>a b old. if 0 + 0 \<le> a \<and> a < 0 + (nx + 1) \<and> 0 + 0 \<le> b \<and> b < 0 + (nx + 1)
                   then cheby_val nx (cheby_x nx) (cheby_cx nx) (a - 0) (b - 0) else old)"
    by (rule cellwise_assign_block) (simp_all add: cheby_cell_put)
  show "get2 (cheby_loops nx) i j = cheby_val nx (cheby_x nx) (cheby_cx nx) i j"
    unfolding cheby_loops_def Let_def
    using cellwiseD[OF cw square_replicate, of i j "Finite 0"] assms by simp
  show "square (nat (nx + 1)) (cheby_loops nx)"
    unfolding cheby_loops_def Let_def
    by (rule cellwise_square[OF cw square_replicate])
qed

lemma get_cheby_matrix_entry:
  assumes nx: "1 \<le> nx" and ij: "0 \<le> i" "i \<le> nx" "0 \<le> j" "j \<le> nx"
  shows "get2 (get_cheby_matrix nx) i j =
     (if i = nx \<and> j = nx then Finite (- ((2 * (real_of_int nx) ^ 2 + 1) / 6))
      else if i = 0 \<and> j = 0 then Finite ((2 * (real_of_int nx) ^ 2 + 1) / 6)
      else cheby_val nx (cheby_x nx) (cheby_cx nx) i j)"
proof -
  have nx0: "0 \<le> nx" using nx by simp
  define c where "c = (2 * (real_of_int nx) ^ 2 + 1) / 6"
  define D1 where "D1 = put2 (cheby_loops nx) 0 0 (Finite c)"
  have sq0: "square (nat (nx + 1)) (cheby_loops nx)"
    by (rule cheby_loops_entry(2)[OF nx0 ij])
  have sq1: "square (nat (nx + 1)) D1" unfolding D1_def by (rule square_put2[OF sq0])
  have e1: "get2 D1 a b = (if a = 0 \<and> b = 0 then Finite c else get2 (cheby_loops nx) a b)"
    if "0 \<le> a" "a \<le> nx" "0 \<le> b" "b \<le> nx" for a b
    unfolding D1_def using get2_put2[OF sq0, of 0 0 a b] that by simp
  have d00: "get2 D1 0 0 = Finite c" using e1[of 0 0] nx0 by simp
  have "get_cheby_matrix nx = put2 D1 nx nx (Finite (- c))"
    unfolding get_cheby_matrix_def Let_def D1_def[unfolded c_def, symmetric] d00[unfolded c_def]
    by (simp add: fneg_def c_def)
  then have "get2 (get_cheby_matrix nx) i j = (if i = nx \<and> j = nx then Finite (- c) else get2 D1 i j)"
    using get2_put2[OF sq1, of nx nx i j] ij nx0 by simp
  then show ?thesis
    unfolding e1[OF ij] cheby_loops_entry(1)[OF nx0 ij] c_def by simp
qed

lemma cheby_val_finite:
  assumes nx: "1 \<le> nx" and ij: "0 \<le> i" "i \<le> nx" "0 \<le> j" "j \<le> nx"
    and nc: "\<not> (i = j \<and> (i = 0 \<or> i = nx))"
  shows "cheby_val nx (cheby_x nx) (cheby_cx nx) i j \<noteq> NonFinite"
proof (cases "i = j")
  case True
  then have int: "i \<noteq> 0" "i \<noteq> nx" using nc by auto
  have "cos (pi * real_of_int i / real_of_int nx) \<noteq> cos (pi * real_of_int 0 / real_of_int nx)"
    by (rule cheby_nodes_distinct[OF nx ij(1,2)]) (use nx int in auto)
  then have n1: "get (cheby_x nx) i \<noteq> 1" using ij by (simp add: cheby_x_nth)
  have "cos (pi * real_of_int i / real_of_int nx) \<noteq> cos (pi * real_of_int nx / real_of_int nx)"
    by (rule cheby_nodes_distinct[OF nx ij(1,2)]) (use nx int in auto)
  then have n2: "get (cheby_x nx) i \<noteq> - 1" using ij nx by (simp add: cheby_x_nth)
  have "get (cheby_x nx) i * get (cheby_x nx) i \<noteq> 1"
    using n1 n2 by (metis square_eq_1_iff power2_eq_square)
  then show ?thesis using True int by (simp add: cheby_val_def fdiv_def)
next
  case False
  have "get (cheby_x nx) i \<noteq> get (cheby_x nx) j"
    using cheby_nodes_distinct[OF nx ij False] ij by (simp add: cheby_x_nth)
  moreover have "get (cheby_cx nx) j \<noteq> 0" using nx ij by (simp add: cheby_cx_nth)
  ultimately show ?thesis using False by (simp add: cheby_val_def fdiv_def)
qed

lemma cheby_val_corner:
  assumes nx: "1 \<le> nx" and i: "i = 0 \<or> i = nx"
  shows "cheby_val nx (cheby_x nx) (cheby_cx nx) i i = NonFinite"
  using i by (auto simp: cheby_val_def fdiv_def)

text \<open>
  C10.  For every \<open>nx \<ge> 1\<close> every entry of the matrix returned by \<open>get_cheby_matrix(nx)\<close> is
  finite.  The nested loops leave a non-finite value (a division by zero) at the two corner
  positions \<open>(0,0)\<close> and \<open>(nx,nx)\<close>, and only there; both are overwritten, with
  \<open>(2 nx\<^sup>2 + 1)/6\<close> and \<open>-(2 nx\<^sup>2 + 1)/6\<close>, before the matrix is returned.
\<close>

theorem cheby_matrix_entries_finite:
  assumes "1 \<le> nx" and "0 \<le> i" and "i \<le> nx" and "0 \<le> j" and "j \<le> nx"
  shows "get2 (get_cheby_matrix nx) i j \<noteq> NonFinite
       \<and> get2 (cheby_loops nx) 0 0 = NonFinite
       \<and> get2 (cheby_loops nx) nx nx = NonFinite
       \<and> get2 (get_cheby_matrix nx) 0 0 = Finite ((2 * (real_of_int nx) ^ 2 + 1) / 6)
       \<and> get2 (get_cheby_matrix nx) nx nx = Finite (- ((2 * (real_of_int nx) ^ 2 + 1) / 6))"
proof -
  have nx0: "0 \<le> nx" using assms by simp
  have "get2 (get_cheby_matrix nx) i j \<noteq> NonFinite"
  proof (cases "i = j \<and> (i = 0 \<or> i = nx)")
    case True
    then show ?thesis using assms by (auto simp: get_cheby_matrix_entry)
  next
    case False
    then have "get2 (get_cheby_matrix nx) i j = cheby_val nx (cheby_x nx) (cheby_cx nx) i j"
      using assms by (auto simp: get_cheby_matrix_entry)
    then show ?thesis using cheby_val_finite[OF assms False] by simp
  qed
  moreover have "get2 (cheby_loops nx) 0 0 = NonFinite"
    using cheby_loops_entry(1)[OF nx0, of 0 0] nx0 cheby_val_corner[OF assms(1), of 0] by simp
  moreover have "get2 (cheby_loops nx) nx nx = NonFinite"
    using cheby_loops_entry(1)[OF nx0, of nx nx] nx0 cheby_val_corner[OF assms(1), of nx] by simp
  moreover have "get2 (get_cheby_matrix nx) 0 0 = Finite ((2 * (real_of_int nx) ^ 2 + 1) / 6)"
    using get_cheby_matrix_entry[OF assms(1), of 0 0] assms(1) by simp
  moreover have "get2 (get_cheby_matrix nx) nx nx = Finite (- ((2 * (real_of_int nx) ^ 2 + 1) / 6))"
    using get_cheby_matrix_entry[OF assms(1), of nx nx] assms(1) by simp
  ultimately show ?thesis by simp
qed

theorem cheby_matrix_entries_finite_witness:
  "get2 (get_cheby_matrix 2) 1 1 \<noteq> NonFinite
   \<and> get2 (cheby_loops 2) 0 0 = NonFinite
   \<and> get2 (cheby_loops 2) 2 2 = NonFinite
   \<and> get2 (get_cheby_matrix 2) 0 0 = Finite ((2 * (real_of_int 2) ^ 2 + 1) / 6)
   \<and> get2 (get_cheby_matrix 2) 2 2 = Finite (- ((2 * (real_of_int 2) ^ 2 + 1) / 6))"
proof -
  have h: "(1::int) \<le> 2" "(0::int) \<le> 1" by simp_all
  show ?thesis by (rule cheby_matrix_entries_finite[OF h(1) h(2) h(1) h(2) h(1)])
qed

lemma snapshot_logI:
  fixes body :: "int \<Rightarrow> 's \<Rightarrow> 's" and res :: "'s \<Rightarrow> 'r list" and cur :: "'s \<Rightarrow> 'r"
  assumes body: "\<And>it s. res (body it s)
        = (if it mod idisp = 0 then put (res s) (it div idisp) (cur (body it s)) else res s)"
    and idisp: "0 < idisp" and nt: "0 \<le> nt"
    and len: "length (res s0) = nat (n_snapshots nt idisp)"
  shows "snapshot_log nt idisp (\<lambda>n. res (time_loop body n s0)) (\<lambda>n. cur (time_loop body n s0))"
proof -
  have "0 \<le> real_of_int nt / real_of_int idisp" using idisp nt by simp
  then have "0 \<le> n_snapshots nt idisp"
    unfolding n_snapshots_def by (simp add: ceiling_mono[of 0, simplified])
  then have le: "n_snapshots nt idisp \<le> int (length (res s0))" using len by simp
  note g = snapshots_generic[of res body idisp cur nt s0, OF body idisp nt le]
  have "get (res (time_loop body nt s0)) j = cur (time_loop body (j * idisp + 1) s0)"
    if "0 \<le> j" "j < n_snapshots nt idisp" for j
    using g that by (simp add: lt_n_snapshots[OF idisp])
  moreover have "res (time_loop body (it + 1) s0) = res (time_loop body it s0)"
    if "0 \<le> it" "it mod idisp \<noteq> 0" for it
    using that by (simp add: time_loop_Suc body)
  moreover have "res (time_loop body (it + 1) s0)
      = put (res (time_loop body it s0)) (it div idisp) (cur (time_loop body (it + 1) s0))"
    if "0 \<le> it" "it mod idisp = 0" for it
    using that by (simp add: time_loop_Suc body)
  ultimately show ?thesis
    unfolding snapshot_log_def using g len by simp
qed

lemma se_body_results:
  "se_u_results (se_body dt Minv K ng isrc src idisp it s)
   = (if it mod idisp = 0
      then put (se_u_results s) (it div idisp) (se_u (se_body dt Minv K ng isrc src idisp it s))
      else se_u_results s)"
  by (simp add: se_body_def Let_def)

lemma fe_body_results:
  "fe_u_results (fe_body dt dx Minv K Mfd D f src idisp it s)
   = (if it mod idisp = 0
      then put (fe_u_results s) (it div idisp) (fe_u (fe_body dt dx Minv K Mfd D f src idisp it s))
      else fe_u_results s)"
  "fe_p_results (fe_body dt dx Minv K Mfd D f src idisp it s)
   = (if it mod idisp = 0
      then put (fe_p_results s) (it div idisp) (fe_p (fe_body dt dx Minv K Mfd D f src idisp it s))
      else fe_p_results s)"
  by (simp_all add: fe_body_def Let_def)

lemma cheby_body_results:
  "ch_u_results (cheby_body dt D mu rho sg src nx idisp it s)
   = (if it mod idisp = 0
      then put (ch_u_results s) (it div idisp) (ch_u (cheby_body dt D mu rho sg src nx idisp it s))
      else ch_u_results s)"
  by (simp add: cheby_body_def Let_def)

lemma f1_body_results:
  "f1_p_results (f1_body fd2 c dt dx sg src nx idisp it s)
   = (if it mod idisp = 0
      then put (f1_p_results s) (it div idisp) (f1_field f1_p (f1_body fd2 c dt dx sg src nx idisp it s))
      else f1_p_results s)"
  "f1_ap_results (f1_body fd2 c dt dx sg src nx idisp it s)
   = (if it mod idisp = 0
      then put (f1_ap_results s) (it div idisp) (f1_field f1_ap (f1_body fd2 c dt dx sg src nx idisp it s))
      else f1_ap_results s)"
  "f1_sp_results (f1_body fd2 c dt dx sg src nx idisp it s)
   = (if it mod idisp = 0
      then put (f1_sp_results s) (it div idisp) (f1_field f1_sp (f1_body fd2 c dt dx sg src nx idisp it s))
      else f1_sp_results s)"
  by (simp_all add: f1_body_def f1_field_def Let_def split: prod.splits)

lemma length_zeros2 [simp]: "length (zeros2 n m) = nat n"
  by (simp add: zeros2_def)

lemma snapshot_log_cong:
  assumes "\<And>n. 0 \<le> n \<Longrightarrow> lg n = lg' n" and "\<And>n. 0 \<le> n \<Longrightarrow> field n = field' n"
    and "0 < idisp" and "0 \<le> nt"
  shows "snapshot_log nt idisp lg field \<longleftrightarrow> snapshot_log nt idisp lg' field'"
proof -
  have "0 \<le> j * idisp + 1" if "0 \<le> j" for j using that assms(3) by simp
  then show ?thesis
    unfolding snapshot_log_def using assms by simp
qed

lemma p2_body_results:
  "p2_ap_results (p2_body fd2 c dt dx sg src nx idisp it s)
   = (if it mod idisp = 0
      then put (p2_ap_results s) (it div idisp) (p2_ap_sec (p2_body fd2 c dt dx sg src nx idisp it s))
      else p2_ap_results s)"
  "p2_sp_results (p2_body fd2 c dt dx sg src nx idisp it s)
   = (if it mod idisp = 0
      then put (p2_sp_results s) (it div idisp) (p2_sp_sec (p2_body fd2 c dt dx sg src nx idisp it s))
      else p2_sp_results s)"
  by (simp_all add: p2_body_def Let_def)

lemma p2_body_sections:
  "p2_sp_sec (p2_body fd2 c dt dx sg src nx idisp it s)
     = neg_abs (slice2 (p2_sp (p2_body fd2 c dt dx sg src nx idisp it s)) 1 (nx div 2) 1 (nx div 2))"
  "p2_ap_sec (p2_body fd2 c dt dx sg src nx idisp it s)
     = neg_abs (transpose (slice2 (p2_ap (p2_body fd2 c dt dx sg src nx idisp it s)) (nx div 2) nx 1 (nx div 2)))"
  by (simp_all add: p2_body_def Let_def)

lemma p2_snapshots:
  assumes "0 < idisp" and "0 \<le> nt"
  shows "snapshot_log nt idisp (\<lambda>n. p2_ap_results (p2_run fd2 c dt dx sg src nx idisp nt n))
                               (\<lambda>n. p2_ap_sec (p2_run fd2 c dt dx sg src nx idisp nt n))"
    and "snapshot_log nt idisp (\<lambda>n. p2_sp_results (p2_run fd2 c dt dx sg src nx idisp nt n))
                               (\<lambda>n. p2_sp_sec (p2_run fd2 c dt dx sg src nx idisp nt n))"
  unfolding p2_run_def
  by (rule snapshot_logI[OF _ assms], rule p2_body_results, simp add: p2_init_def Let_def)+

lemma p2_run_sections:
  "p2_sp_sec (p2_run fd c dt dx sg src nx idisp nt n)
     = neg_abs (slice2 (p2_sp (p2_run fd c dt dx sg src nx idisp nt n)) 1 (nx div 2) 1 (nx div 2))"
  "p2_ap_sec (p2_run fd c dt dx sg src nx idisp nt n)
     = neg_abs (transpose (slice2 (p2_ap (p2_run fd c dt dx sg src nx idisp nt n)) (nx div 2) nx 1 (nx div 2)))"
proof -
  have "p2_sp_sec (p2_run fd c dt dx sg src nx idisp nt n)
     = neg_abs (slice2 (p2_sp (p2_run fd c dt dx sg src nx idisp nt n)) 1 (nx div 2) 1 (nx div 2))
    \<and> p2_ap_sec (p2_run fd c dt dx sg src nx idisp nt n)
     = neg_abs (transpose (slice2 (p2_ap (p2_run fd c dt dx sg src nx idisp nt n)) (nx div 2) nx 1 (nx div 2)))"
  proof (cases "1 \<le> n")
    case False
    then have "py_range 0 n = []" by (simp add: py_range_def)
    then show ?thesis by (simp add: p2_run_def time_loop_def p2_init_def Let_def)
  next
    case True
    then have n: "0 \<le> n - 1" by simp
    have "p2_run fd c dt dx sg src nx idisp nt n
        = p2_body fd c dt dx sg src nx idisp (n - 1) (p2_run fd c dt dx sg src nx idisp nt (n - 1))"
      unfolding p2_run_def using time_loop_Suc[OF n, of "p2_body fd c dt dx sg src nx idisp"] by simp
    then show ?thesis by (simp add: p2_body_sections)
  qed
  then show "p2_sp_sec (p2_run fd c dt dx sg src nx idisp nt n)
     = neg_abs (slice2 (p2_sp (p2_run fd c dt dx sg src nx idisp nt n)) 1 (nx div 2) 1 (nx div 2))"
    "p2_ap_sec (p2_run fd c dt dx sg src nx idisp nt n)
     = neg_abs (transpose (slice2 (p2_ap (p2_run fd c dt dx sg src nx idisp nt n)) (nx div 2) nx 1 (nx div 2)))"
    by simp_all
qed

lemma snapshot_log_rows:
  assumes "snapshot_log 3 2 lg field"
  shows "lg 3 = [field 1, field 3]" and "lg 2 = lg 1"
proof -
  have c: "n_snapshots 3 2 = 2" by (simp add: n_snapshots_def ceiling_eq_iff)
  have l: "length (lg 3) = 2"
    and g: "\<And>j. 0 \<le> j \<Longrightarrow> j < 2 \<Longrightarrow> get (lg 3) j = field (j * 2 + 1)"
    and u: "\<And>it. 0 \<le> it \<Longrightarrow> it < 3 \<Longrightarrow> it mod 2 \<noteq> 0 \<Longrightarrow> lg (it + 1) = lg it"
    using assms unfolding snapshot_log_def c by auto
  have "lg 3 ! 0 = field 1" "lg 3 ! 1 = field 3"
    using g[of 0] g[of 1] by (simp_all add: get_nth)
  then show "lg 3 = [field 1, field 3]"
    using l by (intro nth_equalityI) (auto simp: less_Suc_eq numeral_2_eq_2)
  show "lg 2 = lg 1" using u[of 1] by simp
qed

text \<open>
  Claim C8 (snapshots), as stated, says that a copy of the current field is recorded.  The 2D
  Fourier notebook records something else: minus the absolute value of a section of the
  field (transposed for \<open>ap\<close>).  On the \<open>4 \<times> 4\<close> grid, after the first step, both fields hold
  the value \<open>3\<close> everywhere, while the rows recorded are \<open>[[-3]]\<close> and \<open>[[-3, -3]]\<close>.  (At the
  first step the fields handed to \<open>fourier_derivative_2nd\<close> are zero; \<open>muls\<close> stands in for it
  and, like it, returns zeros there.)
\<close>

theorem fourier_2d_records_sections:
  "p2_sp (p2_run muls 1 1 1 [[1, 1, 1, 1], [1, 1, 1, 1], [1, 1, 1, 1], [1, 1, 1, 1]] [3] 4 1 1 1)
     = [[3, 3, 3, 3], [3, 3, 3, 3], [3, 3, 3, 3], [3, 3, 3, 3]]
   \<and> p2_sp_results (p2_run muls 1 1 1 [[1, 1, 1, 1], [1, 1, 1, 1], [1, 1, 1, 1], [1, 1, 1, 1]] [3] 4 1 1 1)
     = [[[- 3]]]
   \<and> p2_ap (p2_run muls 1 1 1 [[1, 1, 1, 1], [1, 1, 1, 1], [1, 1, 1, 1], [1, 1, 1, 1]] [3] 4 1 1 1)
     = [[3, 3, 3, 3], [3, 3, 3, 3], [3, 3, 3, 3], [3, 3, 3, 3]]
   \<and> p2_ap_results (p2_run muls 1 1 1 [[1, 1, 1, 1], [1, 1, 1, 1], [1, 1, 1, 1], [1, 1, 1, 1]] [3] 4 1 1 1)
     = [[[- 3, - 3]]]"
  by code_simp

text \<open>
  C8 as amended.  In a run of \<open>nt\<close> steps with stride \<open>idisp\<close> the snapshot array has
  \<open>ceil(nt/idisp)\<close> rows; a step whose index is not divisible by \<open>idisp\<close> leaves it
  unchanged, a step \<open>it\<close> with \<open>it % idisp == 0\<close> writes row \<open>it/idisp\<close>; and at the end of the
  run row \<open>j\<close> still holds what was written right after step \<open>j * idisp\<close>.  What is written
  is a copy of the current field in the spectral-element, finite-element and Chebyshev loops
  and, in the store model of the 1D Fourier notebook, for its three fields.  In the 2D Fourier
  notebook it is minus the absolute value of a section of the current field:
  \<open>sp[1:nx/2, 1:nz/2]\<close>, and the transpose of \<open>ap[nx/2:nx, 1:nz/2]\<close>.  The hypotheses are the
  shapes of the notebooks' arrays, under which the run raises no exception.
\<close>

theorem snapshots_every_idisp_steps:
  assumes "0 < idisp" and "0 \<le> nt"
    and "square (nat ng) Minv" and "square (nat ng) K" and "1 \<le> isrc" and "isrc \<le> ng"
    and "square (nat nx) Minvf" and "square (nat nx) Kf" and "square (nat nx) Mfd"
    and "square (nat nx) D" and "length f = nat nx" and "nt \<le> int (length srcf)"
    and "0 \<le> nxc" and "square (nat (nxc + 1)) Dc" and "length mu = nat (nxc + 1)"
    and "length rho = nat (nxc + 1)" and "length sgc = nat (nxc + 1)"
    and "nt \<le> int (length srcc)"
    and "2 \<le> nxp" and "length sg = nat nxp" and "\<And>u d. length (fd u d) = length u"
    and "nt \<le> int (length srcp)" and "even nxp"
    and "2 \<le> nxq" and "even nxq" and "square (nat nxq) sgq" and "nt \<le> int (length srcq)"
  shows "snapshot_log nt idisp (\<lambda>n. se_u_results (se_run dt Minv K ng isrc src idisp nt n))
                               (\<lambda>n. se_u (se_run dt Minv K ng isrc src idisp nt n))
       \<and> snapshot_log nt idisp (\<lambda>n. se_u_results (fst (se_hetero_run dt Minv K ng isrc src idisp nt n)))
                               (\<lambda>n. se_u (fst (se_hetero_run dt Minv K ng isrc src idisp nt n)))
       \<and> snapshot_log nt idisp (\<lambda>n. fe_u_results (fe_run dtf dx Minvf Kf Mfd D f srcf idisp nx nt n))
                               (\<lambda>n. fe_u (fe_run dtf dx Minvf Kf Mfd D f srcf idisp nx nt n))
       \<and> snapshot_log nt idisp (\<lambda>n. fe_p_results (fe_run dtf dx Minvf Kf Mfd D f srcf idisp nx nt n))
                               (\<lambda>n. fe_p (fe_run dtf dx Minvf Kf Mfd D f srcf idisp nx nt n))
       \<and> snapshot_log nt idisp (\<lambda>n. ch_u_results (cheby_run dtc Dc mu rho sgc srcc nxc idisp nt n))
                               (\<lambda>n. ch_u (cheby_run dtc Dc mu rho sgc srcc nxc idisp nt n))
       \<and> snapshot_log nt idisp (\<lambda>n. f1_p_results (f1_run fd c dtp dxp sg srcp nxp idisp nt n))
                               (\<lambda>n. f1_field f1_p (f1_run fd c dtp dxp sg srcp nxp idisp nt n))
       \<and> snapshot_log nt idisp (\<lambda>n. f1_ap_results (f1_run fd c dtp dxp sg srcp nxp idisp nt n))
                               (\<lambda>n. f1_field f1_ap (f1_run fd c dtp dxp sg srcp nxp idisp nt n))
       \<and> snapshot_log nt idisp (\<lambda>n. f1_sp_results (f1_run fd c dtp dxp sg srcp nxp idisp nt n))
                               (\<lambda>n. f1_field f1_sp (f1_run fd c dtp dxp sg srcp nxp idisp nt n))
       \<and> snapshot_log nt idisp (\<lambda>n. p2_ap_results (p2_run fd cq dtq dxq sgq srcq nxq idisp nt n))
            (\<lambda>n. neg_abs (transpose (slice2 (p2_ap (p2_run fd cq dtq dxq sgq srcq nxq idisp nt n))
                                                  (nxq div 2) nxq 1 (nxq div 2))))
       \<and> snapshot_log nt idisp (\<lambda>n. p2_sp_results (p2_run fd cq dtq dxq sgq srcq nxq idisp nt n))
            (\<lambda>n. neg_abs (slice2 (p2_sp (p2_run fd cq dtq dxq sgq srcq nxq idisp nt n))
                                       1 (nxq div 2) 1 (nxq div 2)))"
proof -
  have se: "snapshot_log nt idisp (\<lambda>n. se_u_results (se_run dt Minv K ng isrc src idisp nt n))
                               (\<lambda>n. se_u (se_run dt Minv K ng isrc src idisp nt n))"
    unfolding se_run_def
    by (rule snapshot_logI[OF se_body_results assms(1,2)]) (simp add: se_init_def)
  have "snapshot_log nt idisp (\<lambda>n. se_u_results (fst (se_hetero_run dt Minv K ng isrc src idisp nt n)))
                               (\<lambda>n. se_u (fst (se_hetero_run dt Minv K ng isrc src idisp nt n)))
      \<longleftrightarrow> snapshot_log nt idisp (\<lambda>n. se_u_results (se_run dt Minv K ng isrc src idisp nt n))
                               (\<lambda>n. se_u (se_run dt Minv K ng isrc src idisp nt n))"
    by (rule snapshot_log_cong[OF _ _ assms(1,2)]) (simp_all add: se_hetero_run_fst)
  then have het: "snapshot_log nt idisp (\<lambda>n. se_u_results (fst (se_hetero_run dt Minv K ng isrc src idisp nt n)))
                               (\<lambda>n. se_u (fst (se_hetero_run dt Minv K ng isrc src idisp nt n)))"
    using se by simp
  have rest: "snapshot_log nt idisp (\<lambda>n. fe_u_results (fe_run dtf dx Minvf Kf Mfd D f srcf idisp nx nt n))
                               (\<lambda>n. fe_u (fe_run dtf dx Minvf Kf Mfd D f srcf idisp nx nt n))
       \<and> snapshot_log nt idisp (\<lambda>n. fe_p_results (fe_run dtf dx Minvf Kf Mfd D f srcf idisp nx nt n))
                               (\<lambda>n. fe_p (fe_run dtf dx Minvf Kf Mfd D f srcf idisp nx nt n))
       \<and> snapshot_log nt idisp (\<lambda>n. ch_u_results (cheby_run dtc Dc mu rho sgc srcc nxc idisp nt n))
                               (\<lambda>n. ch_u (cheby_run dtc Dc mu rho sgc srcc nxc idisp nt n))
       \<and> snapshot_log nt idisp (\<lambda>n. f1_p_results (f1_run fd c dtp dxp sg srcp nxp idisp nt n))
                               (\<lambda>n. f1_field f1_p (f1_run fd c dtp dxp sg srcp nxp idisp nt n))
       \<and> snapshot_log nt idisp (\<lambda>n. f1_ap_results (f1_run fd c dtp dxp sg srcp nxp idisp nt n))
                               (\<lambda>n. f1_field f1_ap (f1_run fd c dtp dxp sg srcp nxp idisp nt n))
       \<and> snapshot_log nt idisp (\<lambda>n. f1_sp_results (f1_run fd c dtp dxp sg srcp nxp idisp nt n))
                               (\<lambda>n. f1_field f1_sp (f1_run fd c dtp dxp sg srcp nxp idisp nt n))"
    unfolding fe_run_def cheby_run_def f1_run_def
    by (intro conjI snapshot_logI[OF _ assms(1,2)] fe_body_results cheby_body_results f1_body_results)
       (simp_all add: fe_init_def cheby_init_def f1_init_def)
  have ap: "snapshot_log nt idisp (\<lambda>n. p2_ap_results (p2_run fd cq dtq dxq sgq srcq nxq idisp nt n))
            (\<lambda>n. neg_abs (transpose (slice2 (p2_ap (p2_run fd cq dtq dxq sgq srcq nxq idisp nt n))
                                                  (nxq div 2) nxq 1 (nxq div 2))))"
    using p2_snapshots(1)[OF assms(1,2), of fd cq dtq dxq sgq srcq nxq]
    by (simp add: p2_run_sections)
  have sp: "snapshot_log nt idisp (\<lambda>n. p2_sp_results (p2_run fd cq dtq dxq sgq srcq nxq idisp nt n))
            (\<lambda>n. neg_abs (slice2 (p2_sp (p2_run fd cq dtq dxq sgq srcq nxq idisp nt n))
                                       1 (nxq div 2) 1 (nxq div 2)))"
    using p2_snapshots(2)[OF assms(1,2), of fd cq dtq dxq sgq srcq nxq]
    by (simp add: p2_run_sections)
  show ?thesis
    using se het rest ap sp by blast
qed

theorem snapshots_every_idisp_steps_witness:
  "se_u_results (se_run 1 [[1, 0], [0, 1]] [[1, - 1], [- 1, 1]] 2 1 [5] 2 3 3) = [[5, 0], [5, 10]]
   \<and> se_u_results (se_run 1 [[1, 0], [0, 1]] [[1, - 1], [- 1, 1]] 2 1 [5] 2 3 2) = [[5, 0], [0, 0]]
   \<and> se_u (se_run 1 [[1, 0], [0, 1]] [[1, - 1], [- 1, 1]] 2 1 [5] 2 3 2) = [5, 5]
   \<and> se_u_results (fst (se_hetero_run 1 [[1, 0], [0, 1]] [[1, - 1], [- 1, 1]] 2 1 [5] 2 3 3))
        = [[5, 0], [5, 10]]
   \<and> fe_u_results (fe_run 1 1 [[1, 0], [0, 1]] [[1, - 1], [- 1, 1]] [[1, 0], [0, 1]] [[0, 0], [0, 0]]
                       [1, 0] [1, 1, 1] 2 2 3 3) = [[1, 0], [3, 3]]
   \<and> fe_p_results (fe_run 1 1 [[1, 0], [0, 1]] [[1, - 1], [- 1, 1]] [[1, 0], [0, 1]] [[0, 0], [0, 0]]
                       [1, 0] [1, 1, 1] 2 2 3 3) = [[1, 0], [6, 0]]
   \<and> ch_u_results (cheby_run 1 [[1, 2, 3], [4, 5, 6], [7, 8, 9]] [1, 1, 1] [1, 1, 1] [1, 1, 1] [1, 1, 1]
                       2 2 3 3) = [[0, 1, 0], [0, 6972, 0]]
   \<and> f1_p_results (f1_run muls 1 1 1 [1, 1, 1, 1] [3, 1, 2] 4 2 3 3) = [[0, 3, 3, 0], [0, 6, 6, 0]]
   \<and> f1_ap_results (f1_run muls 1 1 1 [1, 1, 1, 1] [3, 1, 2] 4 2 3 3) = [[0, 3, 3, 0], [0, 13, 13, 0]]
   \<and> f1_sp_results (f1_run muls 1 1 1 [1, 1, 1, 1] [3, 1, 2] 4 2 3 3) = [[3, 0, 3, 0], [29, 0, 29, 0]]
   \<and> p2_ap_results (p2_run muls 1 1 1 [[1, 1, 1, 1], [1, 1, 1, 1], [1, 1, 1, 1], [1, 1, 1, 1]]
                        [3, 1, 2] 4 2 3 3) = [[[- 3, - 3]], [[- 13, - 13]]]
   \<and> p2_sp_results (p2_run muls 1 1 1 [[1, 1, 1, 1], [1, 1, 1, 1], [1, 1, 1, 1], [1, 1, 1, 1]]
                        [3, 1, 2] 4 2 3 3) = [[[- 3]], [[- 51]]]"
proof -
  have h: "(0::int) < 2" "(0::int) \<le> 3"
    "square (nat 2) [[1, 0], [0, 1 :: real]]" "square (nat 2) [[1, - 1], [- 1, 1 :: real]]"
    "(1::int) \<le> 1" "(1::int) \<le> 2"
    "square (nat 2) [[1, 0], [0, 1 :: real]]" "square (nat 2) [[1, - 1], [- 1, 1 :: real]]"
    "square (nat 2) [[1, 0], [0, 1 :: real]]" "square (nat 2) [[0, 0], [0, 0 :: real]]"
    "length [1, 0 :: real] = nat 2" "(3::int) \<le> int (length [1, 1, 1 :: real])"
    "(0::int) \<le> 2" "square (nat (2 + 1)) [[1, 2, 3], [4, 5, 6], [7, 8, 9 :: real]]"
    "length [1, 1, 1 :: real] = nat (2 + 1)" "length [1, 1, 1 :: real] = nat (2 + 1)"
    "length [1, 1, 1 :: real] = nat (2 + 1)" "(3::int) \<le> int (length [1, 1, 1 :: real])"
    "(2::int) \<le> 4" "length [1, 1, 1, 1 :: real] = nat 4"
    "\<And>u d. length (muls u d) = length u"
    "(3::int) \<le> int (length [3, 1, 2 :: real])" "even (4::int)"
    "(2::int) \<le> 4" "even (4::int)"
    "square (nat 4) [[1, 1, 1, 1], [1, 1, 1, 1], [1, 1, 1, 1], [1, 1, 1, 1 :: real]]"
    "(3::int) \<le> int (length [3, 1, 2 :: real])"
    by (simp_all add: square_def)
  note T = snapshots_every_idisp_steps[where dt = 1 and src = "[5]" and dtf = 1 and dx = 1
      and dtc = 1 and c = 1 and dtp = 1 and dxp = 1 and cq = 1 and dtq = 1 and dxq = 1
      and fd = muls, OF h]
  have r: "py_range 0 1 = [0]" "py_range 0 3 = [0, 1, 2]" "py_range 1 3 = [1, 2]" "py_range 2 2 = []"
    by (simp_all add: py_range_def upto_rec1)
  have ns: "n_snapshots 3 2 = 2" by (simp add: n_snapshots_def ceiling_eq_iff)
  note ev = f1_run_def time_loop_def r ns f1_init_def f1_body_def f1_field_def
      f1_sp_step_def f1_p_step_def f1_ap_step_def f1_p_d2_def f1_ap_d2_def alloc_def wr_def Let_def
      zeros_def zeros2_def vadd_def vsub_def smul_def muls_def put_def get_def pos_def
      numeral_eq_Suc
  have se: "se_u (se_run 1 [[1, 0], [0, 1]] [[1, - 1], [- 1, 1]] 2 1 [5] 2 3 1) = [5, 0]"
    "se_u (se_run 1 [[1, 0], [0, 1]] [[1, - 1], [- 1, 1]] 2 1 [5] 2 3 3) = [5, 10]"
    "se_u (se_run 1 [[1, 0], [0, 1]] [[1, - 1], [- 1, 1]] 2 1 [5] 2 3 2) = [5, 5]"
    "se_u_results (se_run 1 [[1, 0], [0, 1]] [[1, - 1], [- 1, 1]] 2 1 [5] 2 3 1) = [[5, 0], [0, 0]]"
    by code_simp+
  have het: "se_u (fst (se_hetero_run 1 [[1, 0], [0, 1]] [[1, - 1], [- 1, 1]] 2 1 [5] 2 3 1)) = [5, 0]"
    "se_u (fst (se_hetero_run 1 [[1, 0], [0, 1]] [[1, - 1], [- 1, 1]] 2 1 [5] 2 3 3)) = [5, 10]"
    by code_simp+
  have fe: "fe_u (fe_run 1 1 [[1, 0], [0, 1]] [[1, - 1], [- 1, 1]] [[1, 0], [0, 1]] [[0, 0], [0, 0]]
                       [1, 0] [1, 1, 1] 2 2 3 1) = [1, 0]"
    "fe_u (fe_run 1 1 [[1, 0], [0, 1]] [[1, - 1], [- 1, 1]] [[1, 0], [0, 1]] [[0, 0], [0, 0]]
                       [1, 0] [1, 1, 1] 2 2 3 3) = [3, 3]"
    "fe_p (fe_run 1 1 [[1, 0], [0, 1]] [[1, - 1], [- 1, 1]] [[1, 0], [0, 1]] [[0, 0], [0, 0]]
                       [1, 0] [1, 1, 1] 2 2 3 1) = [1, 0]"
    "fe_p (fe_run 1 1 [[1, 0], [0, 1]] [[1, - 1], [- 1, 1]] [[1, 0], [0, 1]] [[0, 0], [0, 0]]
                       [1, 0] [1, 1, 1] 2 2 3 3) = [6, 0]"
    by code_simp+
  have ch: "ch_u (cheby_run 1 [[1, 2, 3], [4, 5, 6], [7, 8, 9]] [1, 1, 1] [1, 1, 1] [1, 1, 1] [1, 1, 1]
                       2 2 3 1) = [0, 1, 0]"
    "ch_u (cheby_run 1 [[1, 2, 3], [4, 5, 6], [7, 8, 9]] [1, 1, 1] [1, 1, 1] [1, 1, 1] [1, 1, 1]
                       2 2 3 3) = [0, 6972, 0]"
    by code_simp+
  have f1: "f1_field f1_p (f1_run muls 1 1 1 [1, 1, 1, 1] [3, 1, 2] 4 2 3 1) = [0, 3, 3, 0]"
    "f1_field f1_p (f1_run muls 1 1 1 [1, 1, 1, 1] [3, 1, 2] 4 2 3 3) = [0, 6, 6, 0]"
    "f1_field f1_ap (f1_run muls 1 1 1 [1, 1, 1, 1] [3, 1, 2] 4 2 3 1) = [0, 3, 3, 0]"
    "f1_field f1_ap (f1_run muls 1 1 1 [1, 1, 1, 1] [3, 1, 2] 4 2 3 3) = [0, 13, 13, 0]"
    "f1_field f1_sp (f1_run muls 1 1 1 [1, 1, 1, 1] [3, 1, 2] 4 2 3 1) = [3, 0, 3, 0]"
    "f1_field f1_sp (f1_run muls 1 1 1 [1, 1, 1, 1] [3, 1, 2] 4 2 3 3) = [29, 0, 29, 0]"
    by (simp_all add: ev split: prod.splits)
  have p2: "neg_abs (transpose (slice2 (p2_ap (p2_run muls 1 1 1
               [[1, 1, 1, 1], [1, 1, 1, 1], [1, 1, 1, 1], [1, 1, 1, 1]] [3, 1, 2] 4 2 3 1)) (4 div 2) 4 1 (4 div 2)))
             = [[- 3, - 3]]"
    "neg_abs (transpose (slice2 (p2_ap (p2_run muls 1 1 1
               [[1, 1, 1, 1], [1, 1, 1, 1], [1, 1, 1, 1], [1, 1, 1, 1]] [3, 1, 2] 4 2 3 3)) (4 div 2) 4 1 (4 div 2)))
             = [[- 13, - 13]]"
    "neg_abs (slice2 (p2_sp (p2_run muls 1 1 1
               [[1, 1, 1, 1], [1, 1, 1, 1], [1, 1, 1, 1], [1, 1, 1, 1]] [3, 1, 2] 4 2 3 1)) 1 (4 div 2) 1 (4 div 2))
             = [[- 3]]"
    "neg_abs (slice2 (p2_sp (p2_run muls 1 1 1
               [[1, 1, 1, 1], [1, 1, 1, 1], [1, 1, 1, 1], [1, 1, 1, 1]] [3, 1, 2] 4 2 3 3)) 1 (4 div 2) 1 (4 div 2))
             = [[- 51]]"
    by code_simp+
  have T1: "se_u_results (se_run 1 [[1, 0], [0, 1]] [[1, - 1], [- 1, 1]] 2 1 [5] 2 3 3) = [[5, 0], [5, 10]]"
    using snapshot_log_rows(1)[OF T[THEN conjunct1]] unfolding se .
  have T1b: "se_u_results (se_run 1 [[1, 0], [0, 1]] [[1, - 1], [- 1, 1]] 2 1 [5] 2 3 2) = [[5, 0], [0, 0]]"
    using snapshot_log_rows(2)[OF T[THEN conjunct1]] unfolding se .
  note R = T[THEN conjunct2]
  have T2: "se_u_results (fst (se_hetero_run 1 [[1, 0], [0, 1]] [[1, - 1], [- 1, 1]] 2 1 [5] 2 3 3))
        = [[5, 0], [5, 10]]"
    using snapshot_log_rows(1)[OF R[THEN conjunct1]] unfolding het .
  note R = R[THEN conjunct2]
  have T3: "fe_u_results (fe_run 1 1 [[1, 0], [0, 1]] [[1, - 1], [- 1, 1]] [[1, 0], [0, 1]] [[0, 0], [0, 0]]
                       [1, 0] [1, 1, 1] 2 2 3 3) = [[1, 0], [3, 3]]"
    using snapshot_log_rows(1)[OF R[THEN conjunct1]] unfolding fe .
  note R = R[THEN conjunct2]
  have T4: "fe_p_results (fe_run 1 1 [[1, 0], [0, 1]] [[1, - 1], [- 1, 1]] [[1, 0], [0, 1]] [[0, 0], [0, 0]]
                       [1, 0] [1, 1, 1] 2 2 3 3) = [[1, 0], [6, 0]]"
    using snapshot_log_rows(1)[OF R[THEN conjunct1]] unfolding fe .
  note R = R[THEN conjunct2]
  have T5: "ch_u_results (cheby_run 1 [[1, 2, 3], [4, 5, 6], [7, 8, 9]] [1, 1, 1] [1, 1, 1] [1, 1, 1] [1, 1, 1]
                       2 2 3 3) = [[0, 1, 0], [0, 6972, 0]]"
    using snapshot_log_rows(1)[OF R[THEN conjunct1]] unfolding ch .
  note R = R[THEN conjunct2]
  have T6: "f1_p_results (f1_run muls 1 1 1 [1, 1, 1, 1] [3, 1, 2] 4 2 3 3) = [[0, 3, 3, 0], [0, 6, 6, 0]]"
    using snapshot_log_rows(1)[OF R[THEN conjunct1]] unfolding f1 .
  note R = R[THEN conjunct2]
  have T7: "f1_ap_results (f1_run muls 1 1 1 [1, 1, 1, 1] [3, 1, 2] 4 2 3 3) = [[0, 3, 3, 0], [0, 13, 13, 0]]"
    using snapshot_log_rows(1)[OF R[THEN conjunct1]] unfolding f1 .
  note R = R[THEN conjunct2]
  have T8: "f1_sp_results (f1_run muls 1 1 1 [1, 1, 1, 1] [3, 1, 2] 4 2 3 3) = [[3, 0, 3, 0], [29, 0, 29, 0]]"
    using snapshot_log_rows(1)[OF R[THEN conjunct1]] unfolding f1 .
  note R = R[THEN conjunct2]
  have T9: "p2_ap_results (p2_run muls 1 1 1 [[1, 1, 1, 1], [1, 1, 1, 1], [1, 1, 1, 1], [1, 1, 1, 1]]
                        [3, 1, 2] 4 2 3 3) = [[[- 3, - 3]], [[- 13, - 13]]]"
    using snapshot_log_rows(1)[OF R[THEN conjunct1]] unfolding p2 .
  have T10: "p2_sp_results (p2_run muls 1 1 1 [[1, 1, 1, 1], [1, 1, 1, 1], [1, 1, 1, 1], [1, 1, 1, 1]]
                        [3, 1, 2] 4 2 3 3) = [[[- 3]], [[- 51]]]"
    using snapshot_log_rows(1)[OF R[THEN conjunct2]] unfolding p2 .
  show ?thesis
    using T1 T1b se(3) T2 T3 T4 T5 T6 T7 T8 T9 T10 by blast
qed

subsection \<open>The store of the Fourier notebook\<close>

lemma fst_alloc: "fst (alloc v h) = fresh h"
  by (simp add: alloc_def)

lemma fresh_alloc: "fresh (snd (alloc v h)) = Suc (fresh h)"
  by (simp add: alloc_def)

lemma arr_alloc: "arr (snd (alloc v h)) a = (if a = fresh h then v else arr h a)"
  by (simp add: alloc_def)

lemma fresh_wr: "fresh (wr a i v h) = fresh h"
  by (simp add: wr_def)

lemma arr_wr: "arr (wr a i v h) b = (if b = a then put (arr h a) i v else arr h b)"
  by (simp add: wr_def)

lemma fold_wr:
  "fresh (fold (\<lambda>i h. wr a i (g h i) h) xs h) = fresh h
   \<and> (\<forall>b. b \<noteq> a \<longrightarrow> arr (fold (\<lambda>i h. wr a i (g h i) h) xs h) b = arr h b)
   \<and> (\<forall>b. length (arr (fold (\<lambda>i h. wr a i (g h i) h) xs h) b) = length (arr h b))"
  by (induction xs arbitrary: h) (simp_all add: fresh_wr arr_wr)

lemma st_ok_wr: "st_ok nx h \<Longrightarrow> st_ok nx (wr a i v h)"
  by (simp add: st_ok_def arr_wr)

lemma st_ok_alloc: "st_ok nx h \<Longrightarrow> length v = nat nx \<Longrightarrow> st_ok nx (snd (alloc v h))"
  by (simp add: st_ok_def arr_alloc)

lemma leap_tail_eq:
  "leap_tail c o1 d k sg s e i0 nx h =
     (Suc (fresh h),
      wr (Suc (fresh h)) (nx - 1) 0 (wr (Suc (fresh h)) i0 0
        (snd (alloc (vadd (vadd (vsub (smul 2 (arr h c)) (arr h o1)) (smul k (arr h d))) (muls (muls sg s) e))
           (snd (alloc (vadd (vsub (smul 2 (arr h c)) (arr h o1)) (smul k (arr h d))) h))))))"
  unfolding leap_tail_def Let_def case_prod_beta fst_alloc fresh_alloc arr_alloc
  by simp

lemma leap_tail:
  assumes ok: "st_ok nx h" and sg: "length sg = nat nx" and nx: "1 \<le> nx"
    and lo: "0 \<le> i0" "i0 < nx"
  shows "fst (leap_tail c o1 d k sg s e i0 nx h) = Suc (fresh h)"
    and "fresh (snd (leap_tail c o1 d k sg s e i0 nx h)) = fresh h + 2"
    and "st_ok nx (snd (leap_tail c o1 d k sg s e i0 nx h))"
    and "\<forall>b. b < fresh h \<longrightarrow> arr (snd (leap_tail c o1 d k sg s e i0 nx h)) b = arr h b"
    and "get (arr (snd (leap_tail c o1 d k sg s e i0 nx h)) (Suc (fresh h))) i0 = 0"
    and "get (arr (snd (leap_tail c o1 d k sg s e i0 nx h)) (Suc (fresh h))) (nx - 1) = 0"
proof -
  define v1 where "v1 = vadd (vsub (smul 2 (arr h c)) (arr h o1)) (smul k (arr h d))"
  define v2 where "v2 = vadd v1 (muls (muls sg s) e)"
  have l: "\<And>a. length (arr h a) = nat nx" using ok by (simp add: st_ok_def)
  have l1: "length v1 = nat nx" by (simp add: v1_def l)
  have l2: "length v2 = nat nx" by (simp add: v2_def l1 sg)
  have eq: "leap_tail c o1 d k sg s e i0 nx h =
     (Suc (fresh h), wr (Suc (fresh h)) (nx - 1) 0 (wr (Suc (fresh h)) i0 0 (snd (alloc v2 (snd (alloc v1 h))))))"
    unfolding leap_tail_eq v2_def v1_def ..
  show "fst (leap_tail c o1 d k sg s e i0 nx h) = Suc (fresh h)" by (simp add: eq)
  show "st_ok nx (snd (leap_tail c o1 d k sg s e i0 nx h))"
    unfolding eq snd_conv by (intro st_ok_wr st_ok_alloc ok l1 l2)
  show "fresh (snd (leap_tail c o1 d k sg s e i0 nx h)) = fresh h + 2"
    by (simp add: eq fresh_wr fresh_alloc)
  show "\<forall>b. b < fresh h \<longrightarrow> arr (snd (leap_tail c o1 d k sg s e i0 nx h)) b = arr h b"
    by (simp add: eq arr_wr arr_alloc fresh_alloc)
  have a: "arr (snd (alloc v2 (snd (alloc v1 h)))) (Suc (fresh h)) = v2"
    by (simp add: arr_alloc fresh_alloc)
  have "get (put (put v2 i0 0) (nx - 1) 0) i0 = 0"
    using lo nx l2 by (simp add: get_put)
  then show "get (arr (snd (leap_tail c o1 d k sg s e i0 nx h)) (Suc (fresh h))) i0 = 0"
    by (simp add: eq arr_wr a)
  have "get (put (put v2 i0 0) (nx - 1) 0) (nx - 1) = 0"
    using lo nx l2 by (simp add: get_put)
  then show "get (arr (snd (leap_tail c o1 d k sg s e i0 nx h)) (Suc (fresh h))) (nx - 1) = 0"
    by (simp add: eq arr_wr a)
qed

lemma f1_p_step_tail:
  "f1_p_step c dt dx sg src nx it (v, h) =
     (let ah = leap_tail (f_cur v) (f_old v) (f_d2 v) (dt ^ 2 * c ^ 2) sg (get src it) (dt ^ 2) 0 nx
                 (f1_p_d2 dx nx v h)
      in (v\<lparr>f_cur := fst ah, f_new := fst ah, f_old := f_cur v\<rparr>, snd ah))"
  unfolding f1_p_step_def leap_tail_def Let_def case_prod_beta fst_conv snd_conv
  by simp

lemma f1_ap_step_tail:
  "f1_ap_step c dt dx sg src nx it (v, h) =
     (let ah = leap_tail (f_cur v) (f_old v) (f_d2 v) (dt ^ 2 * c ^ 2) sg (get src it) (dt ^ 2) 0 nx
                 (f1_ap_d2 dx nx v h)
      in (v\<lparr>f_cur := fst ah, f_new := fst ah, f_old := f_cur v\<rparr>, snd ah))"
  unfolding f1_ap_step_def leap_tail_def Let_def case_prod_beta fst_conv snd_conv
  by simp

lemma f1_sp_step_tail:
  "f1_sp_step fd2 c dt dx sg src nx it (v, h) =
     (let ah = leap_tail (f_cur v) (f_old v) (fresh h) (c ^ 2 * dt ^ 2) sg (get src it) (dt ^ 2) 1 nx
                 (snd (alloc (fd2 (arr h (f_cur v)) dx) h))
      in (\<lparr>f_cur = fst ah, f_new = fst ah, f_old = f_cur v, f_d2 = fresh h\<rparr>, snd ah))"
  unfolding f1_sp_step_def leap_tail_def Let_def case_prod_beta fst_conv snd_conv fst_alloc
  by simp

lemma v_ok_mono: "v_ok h v \<Longrightarrow> fresh h \<le> fresh h' \<Longrightarrow> v_ok h' v"
  by (auto simp: v_ok_def)

lemma fd_step_props:
  assumes step: "\<And>v h. stp (v, h) =
       (let ah = leap_tail (f_cur v) (f_old v) (f_d2 v) k sg s e 0 nx (lp v h)
        in (v\<lparr>f_cur := fst ah, f_new := fst ah, f_old := f_cur v\<rparr>, snd ah))"
    and lp: "\<And>v h. lp v h = fold (\<lambda>i h. wr (f_d2 v) i (g v h i) h) xs h"
    and ok: "st_ok nx h" and v: "v_ok h v" and sg: "length sg = nat nx" and nx: "1 \<le> nx"
  shows "fresh (snd (stp (v, h))) = fresh h + 2"
    and "st_ok nx (snd (stp (v, h)))"
    and "v_ok (snd (stp (v, h))) (fst (stp (v, h)))"
    and "f_cur (fst (stp (v, h))) = Suc (fresh h)"
    and "\<forall>b. b < fresh h \<and> b \<noteq> f_d2 v \<longrightarrow> arr (snd (stp (v, h))) b = arr h b"
    and "get (arr (snd (stp (v, h))) (f_cur (fst (stp (v, h))))) 0 = 0"
    and "get (arr (snd (stp (v, h))) (f_cur (fst (stp (v, h))))) (nx - 1) = 0"
proof -
  define h0 where "h0 = lp v h"
  have fr0: "fresh h0 = fresh h" and frame0: "\<And>b. b \<noteq> f_d2 v \<Longrightarrow> arr h0 b = arr h b"
    and len0: "\<And>b. length (arr h0 b) = length (arr h b)"
    unfolding h0_def lp using fold_wr[of "f_d2 v" "g v" xs h] by auto
  have ok0: "st_ok nx h0" using ok len0 by (simp add: st_ok_def)
  have i0: "(0::int) \<le> 0" "0 < nx" using nx by simp_all
  note lt = leap_tail[OF ok0 sg nx i0, of "f_cur v" "f_old v" "f_d2 v" k s e]
  have eq: "stp (v, h) = (v\<lparr>f_cur := Suc (fresh h), f_new := Suc (fresh h), f_old := f_cur v\<rparr>,
       snd (leap_tail (f_cur v) (f_old v) (f_d2 v) k sg s e 0 nx h0))"
    unfolding step h0_def[symmetric] Let_def lt(1) fr0 ..
  show "fresh (snd (stp (v, h))) = fresh h + 2" using lt(2) by (simp add: eq fr0)
  show "st_ok nx (snd (stp (v, h)))" using lt(3) by (simp add: eq)
  show "v_ok (snd (stp (v, h))) (fst (stp (v, h)))"
    using v lt(2) by (simp add: eq v_ok_def fr0)
  show "f_cur (fst (stp (v, h))) = Suc (fresh h)" by (simp add: eq)
  show "\<forall>b. b < fresh h \<and> b \<noteq> f_d2 v \<longrightarrow> arr (snd (stp (v, h))) b = arr h b"
    using lt(4) frame0 by (simp add: eq fr0)
  show "get (arr (snd (stp (v, h))) (f_cur (fst (stp (v, h))))) 0 = 0"
    using lt(5) by (simp add: eq fr0)
  show "get (arr (snd (stp (v, h))) (f_cur (fst (stp (v, h))))) (nx - 1) = 0"
    using lt(6) by (simp add: eq fr0)
qed

lemmas f1_p_step_props = fd_step_props[where stp = "f1_p_step c dt dx sg src nx it" and lp = "f1_p_d2 dx nx",
    OF f1_p_step_tail f1_p_d2_def] for c dt dx sg src nx it

lemmas f1_ap_step_props = fd_step_props[where stp = "f1_ap_step c dt dx sg src nx it" and lp = "f1_ap_d2 dx nx",
    OF f1_ap_step_tail f1_ap_d2_def] for c dt dx sg src nx it

lemma f1_sp_step_props:
  assumes ok: "st_ok nx h" and v: "v_ok h v" and sg: "length sg = nat nx" and nx: "2 \<le> nx"
    and fd2: "\<And>u d. length (fd2 u d) = length u"
  shows "fresh (snd (f1_sp_step fd2 c dt dx sg src nx it (v, h))) = fresh h + 3"
    and "st_ok nx (snd (f1_sp_step fd2 c dt dx sg src nx it (v, h)))"
    and "v_ok (snd (f1_sp_step fd2 c dt dx sg src nx it (v, h))) (fst (f1_sp_step fd2 c dt dx sg src nx it (v, h)))"
    and "f_cur (fst (f1_sp_step fd2 c dt dx sg src nx it (v, h))) = fresh h + 2"
    and "\<forall>b. b < fresh h \<longrightarrow> arr (snd (f1_sp_step fd2 c dt dx sg src nx it (v, h))) b = arr h b"
    and "get (arr (snd (f1_sp_step fd2 c dt dx sg src nx it (v, h)))
              (f_cur (fst (f1_sp_step fd2 c dt dx sg src nx it (v, h))))) (nx - 1) = 0"
proof -
  define h0 where "h0 = snd (alloc (fd2 (arr h (f_cur v)) dx) h)"
  have fr0: "fresh h0 = Suc (fresh h)" by (simp add: h0_def fresh_alloc)
  have l: "\<And>a. length (arr h a) = nat nx" using ok by (simp add: st_ok_def)
  have ok0: "st_ok nx h0" unfolding h0_def by (rule st_ok_alloc[OF ok]) (simp add: fd2 l)
  have frame0: "\<And>b. b < fresh h \<Longrightarrow> arr h0 b = arr h b" by (simp add: h0_def arr_alloc)
  have i0: "(0::int) \<le> 1" "1 < nx" and nx1: "1 \<le> nx" using nx by simp_all
  note lt = leap_tail[OF ok0 sg nx1 i0, of "f_cur v" "f_old v" "fresh h" "c ^ 2 * dt ^ 2" "get src it" "dt ^ 2"]
  have eq: "f1_sp_step fd2 c dt dx sg src nx it (v, h)
      = (\<lparr>f_cur = Suc (Suc (fresh h)), f_new = Suc (Suc (fresh h)), f_old = f_cur v, f_d2 = fresh h\<rparr>,
         snd (leap_tail (f_cur v) (f_old v) (fresh h) (c ^ 2 * dt ^ 2) sg (get src it) (dt ^ 2) 1 nx h0))"
    unfolding f1_sp_step_tail h0_def[symmetric] Let_def lt(1) fr0 ..
  show "fresh (snd (f1_sp_step fd2 c dt dx sg src nx it (v, h))) = fresh h + 3"
    using lt(2) by (simp add: eq fr0)
  show "st_ok nx (snd (f1_sp_step fd2 c dt dx sg src nx it (v, h)))" using lt(3) by (simp add: eq)
  show "v_ok (snd (f1_sp_step fd2 c dt dx sg src nx it (v, h))) (fst (f1_sp_step fd2 c dt dx sg src nx it (v, h)))"
    using v lt(2) by (simp add: eq v_ok_def fr0)
  show "f_cur (fst (f1_sp_step fd2 c dt dx sg src nx it (v, h))) = fresh h + 2" by (simp add: eq)
  show "\<forall>b. b < fresh h \<longrightarrow> arr (snd (f1_sp_step fd2 c dt dx sg src nx it (v, h))) b = arr h b"
    using lt(4) frame0 by (simp add: eq fr0)
  show "get (arr (snd (f1_sp_step fd2 c dt dx sg src nx it (v, h)))
              (f_cur (fst (f1_sp_step fd2 c dt dx sg src nx it (v, h))))) (nx - 1) = 0"
    using lt(6) by (simp add: eq fr0)
qed

lemma f1_body_parts:
  fixes fd2 c dt dx sg src nx idisp it s
  defines "r1 \<equiv> f1_sp_step fd2 c dt dx sg src nx it (f1_sp s, f1_store s)"
  defines "r2 \<equiv> f1_p_step c dt dx sg src nx it (f1_p s, snd r1)"
  defines "r3 \<equiv> f1_ap_step c dt dx sg src nx it (f1_ap s, snd r2)"
  shows "f1_store (f1_body fd2 c dt dx sg src nx idisp it s) = snd r3"
    and "f1_sp (f1_body fd2 c dt dx sg src nx idisp it s) = fst r1"
    and "f1_p (f1_body fd2 c dt dx sg src nx idisp it s) = fst r2"
    and "f1_ap (f1_body fd2 c dt dx sg src nx idisp it s) = fst r3"
  unfolding f1_body_def Let_def case_prod_beta r1_def r2_def r3_def
  by simp_all

lemma f1_body_props:
  assumes ok: "f1_ok nx s" and sg: "length sg = nat nx" and nx: "2 \<le> nx"
    and fd2: "\<And>u d. length (fd2 u d) = length u"
  shows "f1_ok nx (f1_body fd2 c dt dx sg src nx idisp it s)"
    and "get (f1_field f1_p (f1_body fd2 c dt dx sg src nx idisp it s)) 0 = 0"
    and "get (f1_field f1_p (f1_body fd2 c dt dx sg src nx idisp it s)) (nx - 1) = 0"
    and "get (f1_field f1_ap (f1_body fd2 c dt dx sg src nx idisp it s)) 0 = 0"
    and "get (f1_field f1_ap (f1_body fd2 c dt dx sg src nx idisp it s)) (nx - 1) = 0"
    and "get (f1_field f1_sp (f1_body fd2 c dt dx sg src nx idisp it s)) (nx - 1) = 0"
proof -
  define h where "h = f1_store s"
  define r1 where "r1 = f1_sp_step fd2 c dt dx sg src nx it (f1_sp s, h)"
  define r2 where "r2 = f1_p_step c dt dx sg src nx it (f1_p s, snd r1)"
  define r3 where "r3 = f1_ap_step c dt dx sg src nx it (f1_ap s, snd r2)"
  have okh: "st_ok nx h" and vp: "v_ok h (f1_p s)" and vap: "v_ok h (f1_ap s)" and vsp: "v_ok h (f1_sp s)"
    using ok by (simp_all add: f1_ok_def h_def)
  have nx1: "1 \<le> nx" using nx by simp
  have s1: "fresh (snd r1) = fresh h + 3" "st_ok nx (snd r1)" "v_ok (snd r1) (fst r1)"
    "f_cur (fst r1) = fresh h + 2" "\<forall>b. b < fresh h \<longrightarrow> arr (snd r1) b = arr h b"
    "get (arr (snd r1) (f_cur (fst r1))) (nx - 1) = 0"
    unfolding r1_def by (rule f1_sp_step_props[OF okh vsp sg nx fd2])+
  have vp1: "v_ok (snd r1) (f1_p s)" by (rule v_ok_mono[OF vp]) (simp add: s1(1))
  have s2: "fresh (snd r2) = fresh (snd r1) + 2" "st_ok nx (snd r2)" "v_ok (snd r2) (fst r2)"
    "f_cur (fst r2) = Suc (fresh (snd r1))"
    "\<forall>b. b < fresh (snd r1) \<and> b \<noteq> f_d2 (f1_p s) \<longrightarrow> arr (snd r2) b = arr (snd r1) b"
    "get (arr (snd r2) (f_cur (fst r2))) 0 = 0" "get (arr (snd r2) (f_cur (fst r2))) (nx - 1) = 0"
    unfolding r2_def by (rule f1_p_step_props[OF s1(2) vp1 sg nx1])+
  have vap2: "v_ok (snd r2) (f1_ap s)" by (rule v_ok_mono[OF vap]) (simp add: s2(1) s1(1))
  have s3: "fresh (snd r3) = fresh (snd r2) + 2" "st_ok nx (snd r3)" "v_ok (snd r3) (fst r3)"
    "f_cur (fst r3) = Suc (fresh (snd r2))"
    "\<forall>b. b < fresh (snd r2) \<and> b \<noteq> f_d2 (f1_ap s) \<longrightarrow> arr (snd r3) b = arr (snd r2) b"
    "get (arr (snd r3) (f_cur (fst r3))) 0 = 0" "get (arr (snd r3) (f_cur (fst r3))) (nx - 1) = 0"
    unfolding r3_def by (rule f1_ap_step_props[OF s2(2) vap2 sg nx1])+
  have parts: "f1_store (f1_body fd2 c dt dx sg src nx idisp it s) = snd r3"
    "f1_sp (f1_body fd2 c dt dx sg src nx idisp it s) = fst r1"
    "f1_p (f1_body fd2 c dt dx sg src nx idisp it s) = fst r2"
    "f1_ap (f1_body fd2 c dt dx sg src nx idisp it s) = fst r3"
    unfolding r3_def r2_def r1_def h_def by (rule f1_body_parts)+
  have dp: "f_d2 (f1_p s) < fresh h" and dap: "f_d2 (f1_ap s) < fresh h"
    using vp vap by (simp_all add: v_ok_def)
  have "v_ok (snd r3) (fst r2)" by (rule v_ok_mono[OF s2(3)]) (simp add: s3(1))
  moreover have "v_ok (snd r3) (fst r1)" by (rule v_ok_mono[OF s1(3)]) (simp add: s3(1) s2(1))
  ultimately show "f1_ok nx (f1_body fd2 c dt dx sg src nx idisp it s)"
    unfolding f1_ok_def parts using s3(2,3) by simp
  have p_keep: "arr (snd r3) (f_cur (fst r2)) = arr (snd r2) (f_cur (fst r2))"
    using s3(5) dap by (simp add: s2(4) s2(1) s1(1))
  show "get (f1_field f1_p (f1_body fd2 c dt dx sg src nx idisp it s)) 0 = 0"
    unfolding f1_field_def parts p_keep by (rule s2(6))
  show "get (f1_field f1_p (f1_body fd2 c dt dx sg src nx idisp it s)) (nx - 1) = 0"
    unfolding f1_field_def parts p_keep by (rule s2(7))
  show "get (f1_field f1_ap (f1_body fd2 c dt dx sg src nx idisp it s)) 0 = 0"
    unfolding f1_field_def parts by (rule s3(6))
  show "get (f1_field f1_ap (f1_body fd2 c dt dx sg src nx idisp it s)) (nx - 1) = 0"
    unfolding f1_field_def parts by (rule s3(7))
  have "arr (snd r2) (f_cur (fst r1)) = arr (snd r1) (f_cur (fst r1))"
    using s2(5) dp by (simp add: s1(4) s1(1))
  moreover have "arr (snd r3) (f_cur (fst r1)) = arr (snd r2) (f_cur (fst r1))"
    using s3(5) dap by (simp add: s1(4) s2(1) s1(1))
  ultimately have sp_keep: "arr (snd r3) (f_cur (fst r1)) = arr (snd r1) (f_cur (fst r1))" by simp
  show "get (f1_field f1_sp (f1_body fd2 c dt dx sg src nx idisp it s)) (nx - 1) = 0"
    unfolding f1_field_def parts sp_keep by (rule s1(6))
qed

lemma f1_ok_init: "0 \<le> nx \<Longrightarrow> f1_ok nx (f1_init nx nt idisp)"
  by (simp add: f1_ok_def f1_init_def st_ok_def v_ok_def)

lemma f1_run_Suc:
  "0 \<le> n \<Longrightarrow> f1_run fd2 c dt dx sg src nx idisp nt (n + 1)
     = f1_body fd2 c dt dx sg src nx idisp n (f1_run fd2 c dt dx sg src nx idisp nt n)"
  by (simp add: f1_run_def time_loop_Suc)

lemma f1_run_ok:
  assumes sg: "length sg = nat nx" and nx: "2 \<le> nx" and fd2: "\<And>u d. length (fd2 u d) = length u"
    and n: "0 \<le> n"
  shows "f1_ok nx (f1_run fd2 c dt dx sg src nx idisp nt n)"
  using n
proof (induction n rule: int_ge_induct)
  case base
  show ?case using nx by (simp add: f1_run_def time_loop_0 f1_ok_init)
next
  case (step n)
  show ?case unfolding f1_run_Suc[OF step.hyps]
    by (rule f1_body_props(1)[OF step.IH sg nx fd2])
qed

lemma cheby_body_u:
  "ch_u (cheby_body dt D mu rho sg src nx idisp it s)
   = put (put (vadd (vadd (vsub (smul 2 (ch_u s)) (ch_uold s))
                          (muls (vdiv (matvec D (matvec (rowscale mu D) (ch_u s))) rho) (dt ^ 2)))
                    (vdiv (muls (muls sg (get src it)) (dt ^ 2)) rho)) 0 0) nx 0"
  "ch_uold (cheby_body dt D mu rho sg src nx idisp it s) = ch_u s"
  by (simp_all add: cheby_body_def Let_def)

lemma length_vdiv [simp]: "length (vdiv a b) = min (length a) (length b)"
  by (simp add: vdiv_def)

lemma cheby_run_Suc:
  "0 \<le> n \<Longrightarrow> cheby_run dt D mu rho sg src nx idisp nt (n + 1)
     = cheby_body dt D mu rho sg src nx idisp n (cheby_run dt D mu rho sg src nx idisp nt n)"
  by (simp add: cheby_run_def time_loop_Suc)

lemma cheby_run_lengths:
  assumes D: "length D = nat (nx + 1)" and rho: "length rho = nat (nx + 1)" and sg: "length sg = nat (nx + 1)"
    and n: "0 \<le> n"
  shows "length (ch_u (cheby_run dt D mu rho sg src nx idisp nt n)) = nat (nx + 1)
       \<and> length (ch_uold (cheby_run dt D mu rho sg src nx idisp nt n)) = nat (nx + 1)"
  using n
proof (induction n rule: int_ge_induct)
  case base
  show ?case by (simp add: cheby_run_def time_loop_0 cheby_init_def)
next
  case (step n)
  then show ?case unfolding cheby_run_Suc[OF step.hyps] cheby_body_u
    using D rho sg by simp
qed

lemma cheby_boundaries:
  assumes D: "length D = nat (nx + 1)" and rho: "length rho = nat (nx + 1)" and sg: "length sg = nat (nx + 1)"
    and nx: "0 \<le> nx" and it: "0 \<le> it"
  shows "get (ch_u (cheby_run dt D mu rho sg src nx idisp nt (it + 1))) 0 = 0"
    and "get (ch_u (cheby_run dt D mu rho sg src nx idisp nt (it + 1))) nx = 0"
proof -
  note l = cheby_run_lengths[OF D rho sg it, of dt mu src idisp nt]
  define w where "w = vadd (vadd (vsub (smul 2 (ch_u (cheby_run dt D mu rho sg src nx idisp nt it)))
                                        (ch_uold (cheby_run dt D mu rho sg src nx idisp nt it)))
                          (muls (vdiv (matvec D (matvec (rowscale mu D) (ch_u (cheby_run dt D mu rho sg src nx idisp nt it)))) rho) (dt ^ 2)))
                    (vdiv (muls (muls sg (get src it)) (dt ^ 2)) rho)"
  have lw: "int (length w) = nx + 1" using l D rho sg nx by (simp add: w_def)
  have u: "ch_u (cheby_run dt D mu rho sg src nx idisp nt (it + 1)) = put (put w 0 0) nx 0"
    unfolding cheby_run_Suc[OF it] cheby_body_u w_def ..
  show "get (ch_u (cheby_run dt D mu rho sg src nx idisp nt (it + 1))) 0 = 0"
    unfolding u using lw nx by (simp add: get_put)
  show "get (ch_u (cheby_run dt D mu rho sg src nx idisp nt (it + 1))) nx = 0"
    unfolding u using lw nx by (simp add: get_put)
qed

subsection \<open>Boundary values\<close>

text \<open>
  C7, the claim as stated, fails: the spectral-element loop contains no assignment to the
  boundary entries.  With the matrices assembled by the homogeneous notebook for three linear
  elements (four grid points) the first grid point of the current field is \<open>2\<close> after two
  steps.
\<close>

theorem se_loop_does_not_pin_boundary:
  "get (se_u (se_run 1 (se_Minv (se_homo_M 1 [1, 1] (1 / 2) 1 3) 4)
                       (se_homo_K (se_homo_Ke 1 [1, 1] 2 [[- 1 / 2, - 1 / 2], [1 / 2, 1 / 2]] 1) 1 3)
                       4 2 [1] 1 2 2)) 0 \<noteq> 0"
proof -
  have "get (se_u (se_run 1 (se_Minv (se_homo_M 1 [1, 1] (1 / 2) 1 3) 4)
                       (se_homo_K (se_homo_Ke 1 [1, 1] 2 [[- 1 / 2, - 1 / 2], [1 / 2, 1 / 2]] 1) 1 3)
                       4 2 [1] 1 2 2)) 0 = 2"
    by code_simp
  then show ?thesis by simp
qed

text \<open>
  C7 as amended.  The Chebyshev loop sets the first and the last grid point of the newly
  current field to zero after every update, and so do the 3-point and the 5-point
  finite-difference loops of the Fourier notebook; its Fourier loop sets the last grid point
  to zero.  (The spectral-element loops contain no such assignment.)  The hypotheses are
  the shapes of the notebooks' arrays, under which step \<open>it\<close> of a run of \<open>nt\<close> steps is reached
  without an exception.
\<close>

theorem boundaries_pinned_after_update:
  assumes "0 \<le> it"
    and "0 \<le> nxc" and "length Dc = nat (nxc + 1)" and "length rho = nat (nxc + 1)"
    and "length sgc = nat (nxc + 1)"
    and "2 \<le> nx" and "length sg = nat nx" and "\<And>u d. length (fd2 u d) = length u"
    and "square (nat (nxc + 1)) Dc" and "length mu = nat (nxc + 1)"
    and "0 < idisp" and "it < nt" and "it < int (length srcc)" and "it < int (length src)"
  shows "get (ch_u (cheby_run dt Dc mu rho sgc srcc nxc idisp nt (it + 1))) 0 = 0
       \<and> get (ch_u (cheby_run dt Dc mu rho sgc srcc nxc idisp nt (it + 1))) nxc = 0
       \<and> get (f1_field f1_p (f1_run fd2 c dt dx sg src nx idisp nt (it + 1))) 0 = 0
       \<and> get (f1_field f1_p (f1_run fd2 c dt dx sg src nx idisp nt (it + 1))) (nx - 1) = 0
       \<and> get (f1_field f1_ap (f1_run fd2 c dt dx sg src nx idisp nt (it + 1))) 0 = 0
       \<and> get (f1_field f1_ap (f1_run fd2 c dt dx sg src nx idisp nt (it + 1))) (nx - 1) = 0
       \<and> get (f1_field f1_sp (f1_run fd2 c dt dx sg src nx idisp nt (it + 1))) (nx - 1) = 0"
proof -
  have ok: "f1_ok nx (f1_run fd2 c dt dx sg src nx idisp nt it)"
    by (rule f1_run_ok[OF assms(7,6,8,1)])
  have "get (f1_field f1_p (f1_run fd2 c dt dx sg src nx idisp nt (it + 1))) 0 = 0"
    "get (f1_field f1_p (f1_run fd2 c dt dx sg src nx idisp nt (it + 1))) (nx - 1) = 0"
    "get (f1_field f1_ap (f1_run fd2 c dt dx sg src nx idisp nt (it + 1))) 0 = 0"
    "get (f1_field f1_ap (f1_run fd2 c dt dx sg src nx idisp nt (it + 1))) (nx - 1) = 0"
    "get (f1_field f1_sp (f1_run fd2 c dt dx sg src nx idisp nt (it + 1))) (nx - 1) = 0"
    unfolding f1_run_Suc[OF assms(1)] by (rule f1_body_props[OF ok assms(7,6,8)])+
  moreover have "get (ch_u (cheby_run dt Dc mu rho sgc srcc nxc idisp nt (it + 1))) 0 = 0"
    "get (ch_u (cheby_run dt Dc mu rho sgc srcc nxc idisp nt (it + 1))) nxc = 0"
    by (rule cheby_boundaries[OF assms(3,4,5,2,1)])+
  ultimately show ?thesis by simp
qed

theorem boundaries_pinned_after_update_witness:
  "get (ch_u (cheby_run 1 [[1, 2, 3], [4, 5, 6], [7, 8, 9]] [1, 1, 1] [1, 1, 1] [1, 1, 1] [1, 1, 1] 2 1 3 (0 + 1))) 0 = 0
   \<and> get (ch_u (cheby_run 1 [[1, 2, 3], [4, 5, 6], [7, 8, 9]] [1, 1, 1] [1, 1, 1] [1, 1, 1] [1, 1, 1] 2 1 3 (0 + 1))) 2 = 0
   \<and> get (f1_field f1_p (f1_run (\<lambda>v d. v) 1 1 1 [1, 1, 1, 1, 1] [1, 1, 1] 5 1 3 (0 + 1))) 0 = 0
   \<and> get (f1_field f1_p (f1_run (\<lambda>v d. v) 1 1 1 [1, 1, 1, 1, 1] [1, 1, 1] 5 1 3 (0 + 1))) (5 - 1) = 0
   \<and> get (f1_field f1_ap (f1_run (\<lambda>v d. v) 1 1 1 [1, 1, 1, 1, 1] [1, 1, 1] 5 1 3 (0 + 1))) 0 = 0
   \<and> get (f1_field f1_ap (f1_run (\<lambda>v d. v) 1 1 1 [1, 1, 1, 1, 1] [1, 1, 1] 5 1 3 (0 + 1))) (5 - 1) = 0
   \<and> get (f1_field f1_sp (f1_run (\<lambda>v d. v) 1 1 1 [1, 1, 1, 1, 1] [1, 1, 1] 5 1 3 (0 + 1))) (5 - 1) = 0"
proof -
  have h: "(0::int) \<le> 0" "(0::int) \<le> 2" "length [[1, 2, 3], [4, 5, 6], [7, 8, 9 :: real]] = nat (2 + 1)"
    "length [1, 1, 1 :: real] = nat (2 + 1)" "length [1, 1, 1 :: real] = nat (2 + 1)"
    "(2::int) \<le> 5" "length [1, 1, 1, 1, 1 :: real] = nat 5"
    "\<And>u d :: real. length ((\<lambda>v d. v) u d) = length (u :: real list)"
    "square (nat (2 + 1)) [[1, 2, 3], [4, 5, 6], [7, 8, 9 :: real]]"
    "length [1, 1, 1 :: real] = nat (2 + 1)"
    "(0::int) < 1" "(0::int) < 3" "(0::int) < int (length [1, 1, 1 :: real])"
    "(0::int) < int (length [1, 1, 1 :: real])"
    by (simp_all add: square_def)
  show ?thesis
    by (rule boundaries_pinned_after_update[OF h])
qed

subsection \<open>Spectral-element mass assembly\<close>

lemma sum_list_list_update:
  "k < length M \<Longrightarrow> sum_list (M[k := v]) = sum_list M + v - M ! k" for M :: vec
proof (induction M arbitrary: k)
  case Nil
  then show ?case by simp
next
  case (Cons a M)
  then show ?case by (cases k) simp_all
qed

lemma sum_list_put:
  "0 \<le> k \<Longrightarrow> k < int (length M) \<Longrightarrow> sum_list (put M k v) = sum_list M + v - get M k"
  for M :: vec
  by (simp add: put_def get_def sum_list_list_update)

lemma se_M_add_first:
  assumes "k0 = (if i > 1 then b else b - 1)"
  shows "se_M_add Me i 0 (k0, M) = (b, put M b (get M b + get Me 0))"
  using assms by (simp add: se_M_add_def Let_def)

lemma se_M_add_next:
  assumes "j \<noteq> 0"
  shows "se_M_add Me i j (k, M) = (k + 1, put M (k + 1) (get M (k + 1) + get Me j))"
  using assms by (simp add: se_M_add_def Let_def)

lemma se_M_add_loop:
  assumes n: "0 \<le> n" and b: "0 \<le> b" and k0: "k0 = (if i > 1 then b else b - 1)"
  shows "b + n < int (length M) \<Longrightarrow>
     fst (fold (se_M_add Me i) (py_range 0 (n + 1)) (k0, M)) = b + n
   \<and> length (snd (fold (se_M_add Me i) (py_range 0 (n + 1)) (k0, M))) = length M
   \<and> sum_list (snd (fold (se_M_add Me i) (py_range 0 (n + 1)) (k0, M)))
       = sum_list M + (\<Sum>j\<leftarrow>py_range 0 (n + 1). get Me j)
   \<and> (\<forall>g. 0 \<le> g \<and> g < int (length M) \<longrightarrow>
         get (snd (fold (se_M_add Me i) (py_range 0 (n + 1)) (k0, M))) g
           = get M g + (if b \<le> g \<and> g \<le> b + n then get Me (g - b) else 0))"
  using n
proof (induction n rule: int_ge_induct)
  case base
  have r: "py_range 0 (0 + 1) = [0]" by (simp add: py_range_def)
  show ?case
    using base b unfolding r by (auto simp: se_M_add_first[OF k0] sum_list_put get_put)
next
  case (step n)
  define st where "st = fold (se_M_add Me i) (py_range 0 (n + 1)) (k0, M)"
  have lt: "b + n < int (length M)" using step.prems by simp
  have ih: "fst st = b + n" "length (snd st) = length M"
    "sum_list (snd st) = sum_list M + (\<Sum>j\<leftarrow>py_range 0 (n + 1). get Me j)"
    "\<And>g. 0 \<le> g \<Longrightarrow> g < int (length M) \<Longrightarrow>
        get (snd st) g = get M g + (if b \<le> g \<and> g \<le> b + n then get Me (g - b) else 0)"
    using step.IH[OF lt] unfolding st_def by auto
  have r: "py_range 0 (n + 1 + 1) = py_range 0 (n + 1) @ [n + 1]"
    using step.hyps by (intro py_range_snoc) simp
  have ne: "n + 1 \<noteq> 0" using step.hyps by simp
  have e: "fold (se_M_add Me i) (py_range 0 (n + 1 + 1)) (k0, M)
        = (b + n + 1, put (snd st) (b + n + 1) (get (snd st) (b + n + 1) + get Me (n + 1)))"
    unfolding r fold_append comp_def fold_simps st_def[symmetric]
    using se_M_add_next[OF ne, of Me i "fst st" "snd st"] ih(1) by (cases st) simp
  have in_range: "0 \<le> b + n + 1" "b + n + 1 < int (length (snd st))"
    using b step.hyps step.prems ih(2) by auto
  have sm: "(\<Sum>j\<leftarrow>py_range 0 (n + 1 + 1). get Me j)
              = (\<Sum>j\<leftarrow>py_range 0 (n + 1). get Me j) + get Me (n + 1)"
    unfolding r by simp
  show ?case
    unfolding e fst_conv snd_conv sm
    using in_range b step.hyps step.prems ih
    by (auto simp: sum_list_put get_put)
qed

lemma length_se_M_add_fold:
  "length (snd (fold (se_M_add Me i) xs kM)) = length (snd kM)"
  by (induction xs arbitrary: kM) (simp_all add: se_M_add_def Let_def)

lemma se_M_spec_0: "se_M_spec MeF N 0 g = 0"
  by (simp add: se_M_spec_def py_range_def)

lemma se_M_spec_Suc:
  "0 \<le> m \<Longrightarrow> se_M_spec MeF N (m + 1) g
     = se_M_spec MeF N m g + (if m * N \<le> g \<and> g \<le> (m + 1) * N then MeF (m + 1) (g - m * N) else 0)"
proof -
  assume m: "0 \<le> m"
  have r: "py_range 1 (m + 1 + 1) = py_range 1 (m + 1) @ [m + 1]"
    using m by (intro py_range_snoc) simp
  show ?thesis unfolding se_M_spec_def r by simp
qed

lemma se_M_inv_init: "se_M_inv MeF N 0 (- 1, zeros n)"
  by (auto simp: se_M_inv_def se_M_spec_0 py_range_def zeros_def get_def sum_list_replicate)

lemma se_M_inv_step:
  assumes inv: "se_M_inv MeF N m kM" and m: "0 \<le> m" and N: "0 \<le> N"
    and len: "(m + 1) * N < int (length (snd kM))"
    and Me: "\<And>l. 0 \<le> l \<Longrightarrow> l \<le> N \<Longrightarrow> get Me l = MeF (m + 1) l"
  shows "se_M_inv MeF N (m + 1) (fold (se_M_add Me (m + 1)) (py_range 0 (N + 1)) kM)"
    and "length (snd (fold (se_M_add Me (m + 1)) (py_range 0 (N + 1)) kM)) = length (snd kM)"
proof -
  obtain k M where kM: "kM = (k, M)" by (cases kM)
  have k: "k = (if m + 1 > 1 then m * N else m * N - 1)"
    using inv m unfolding kM se_M_inv_def by auto
  have b: "0 \<le> m * N" using m N by simp
  have lt: "m * N + N < int (length M)" using len unfolding kM by (simp add: algebra_simps)
  note L = se_M_add_loop[OF N b k lt, of Me]
  define st where "st = fold (se_M_add Me (m + 1)) (py_range 0 (N + 1)) (k, M)"
  have l1: "fst st = m * N + N" and l2: "length (snd st) = length M"
    and l3: "sum_list (snd st) = sum_list M + (\<Sum>j\<leftarrow>py_range 0 (N + 1). get Me j)"
    and l4: "\<And>g. 0 \<le> g \<Longrightarrow> g < int (length M) \<Longrightarrow>
        get (snd st) g = get M g + (if m * N \<le> g \<and> g \<le> m * N + N then get Me (g - m * N) else 0)"
    using L unfolding st_def by auto
  have Me_sum: "(\<Sum>j\<leftarrow>py_range 0 (N + 1). get Me j) = (\<Sum>l\<leftarrow>py_range 0 (N + 1). MeF (m + 1) l)"
    by (rule arg_cong[where f = sum_list], rule map_cong) (auto simp: Me)
  have r: "py_range 1 (m + 1 + 1) = py_range 1 (m + 1) @ [m + 1]"
    using m by (intro py_range_snoc) simp
  have s0: "sum_list M = (\<Sum>e\<leftarrow>py_range 1 (m + 1). \<Sum>l\<leftarrow>py_range 0 (N + 1). MeF e l)"
    using inv unfolding kM se_M_inv_def by simp
  have e0: "\<And>g. 0 \<le> g \<Longrightarrow> g < int (length M) \<Longrightarrow> get M g = se_M_spec MeF N m g"
    using inv unfolding kM se_M_inv_def by simp
  have c1: "fst st = (if m + 1 = 0 then - 1 else (m + 1) * N)"
    using m l1 by (simp add: algebra_simps)
  have c2: "sum_list (snd st) = (\<Sum>e\<leftarrow>py_range 1 (m + 1 + 1). \<Sum>l\<leftarrow>py_range 0 (N + 1). MeF e l)"
    unfolding r l3 Me_sum s0 by simp
  have c3: "get (snd st) g = se_M_spec MeF N (m + 1) g" if g: "0 \<le> g" "g < int (length (snd st))" for g
  proof -
    have g': "g < int (length M)" using g l2 by simp
    have "m * N + N = (m + 1) * N" by (simp add: algebra_simps)
    moreover have "get Me (g - m * N) = MeF (m + 1) (g - m * N)" if "m * N \<le> g" "g \<le> m * N + N"
      using that by (intro Me) auto
    ultimately show ?thesis
      unfolding l4[OF g(1) g'] e0[OF g(1) g'] se_M_spec_Suc[OF m] by auto
  qed
  show "se_M_inv MeF N (m + 1) (fold (se_M_add Me (m + 1)) (py_range 0 (N + 1)) kM)"
    unfolding kM st_def[symmetric] se_M_inv_def using c1 c2 c3 by blast
  show "length (snd (fold (se_M_add Me (m + 1)) (py_range 0 (N + 1)) kM)) = length (snd kM)"
    unfolding kM st_def[symmetric] using l2 by simp
qed

lemma se_homo_M_loop:
  assumes N: "0 \<le> N" and m: "0 \<le> m"
  shows "m * N < int (length M0) \<Longrightarrow> se_M_inv MeF N 0 (k0, M0) \<Longrightarrow>
       (\<And>e l. 0 \<le> l \<Longrightarrow> l \<le> N \<Longrightarrow> get Me l = MeF e l) \<Longrightarrow>
       se_M_inv MeF N m (fold (\<lambda>i. fold (se_M_add Me i) (py_range 0 (N + 1))) (py_range 1 (m + 1)) (k0, M0))
     \<and> length (snd (fold (\<lambda>i. fold (se_M_add Me i) (py_range 0 (N + 1))) (py_range 1 (m + 1)) (k0, M0)))
         = length M0"
  using m
proof (induction m rule: int_ge_induct)
  case base
  then show ?case by (simp add: py_range_def)
next
  case (step m)
  define st where "st = fold (\<lambda>i. fold (se_M_add Me i) (py_range 0 (N + 1))) (py_range 1 (m + 1)) (k0, M0)"
  have "m * N \<le> (m + 1) * N" using N by (simp add: algebra_simps)
  then have lt: "m * N < int (length M0)" using step.prems(1) by linarith
  have ih: "se_M_inv MeF N m st" "length (snd st) = length M0"
    using step.IH[OF lt step.prems(2) step.prems(3)] unfolding st_def by auto
  have r: "py_range 1 (m + 1 + 1) = py_range 1 (m + 1) @ [m + 1]"
    using step.hyps by (intro py_range_snoc) simp
  have len: "(m + 1) * N < int (length (snd st))" using step.prems(1) ih(2) by simp
  show ?case
    unfolding r fold_append comp_def fold_simps st_def[symmetric]
    using se_M_inv_step[OF ih(1) step.hyps N len step.prems(3)] ih(2) by simp
qed

lemma fold_put_prefix:
  assumes n: "0 \<le> n"
  shows "n \<le> int (length Me0) \<Longrightarrow>
     length (fold (\<lambda>i Me. put Me i (f i)) (py_range 0 n) Me0) = length Me0
   \<and> (\<forall>l. 0 \<le> l \<and> l < int (length Me0) \<longrightarrow>
         get (fold (\<lambda>i Me. put Me i (f i)) (py_range 0 n) Me0) l = (if l < n then f l else get Me0 l))"
  using n
proof (induction n rule: int_ge_induct)
  case base
  then show ?case by (simp add: py_range_def)
next
  case (step n)
  have r: "py_range 0 (n + 1) = py_range 0 n @ [n]" using step.hyps by (rule py_range_snoc)
  have le: "n \<le> int (length Me0)" using step.prems by simp
  show ?case
    unfolding r using step.IH[OF le] step.hyps step.prems by (auto simp: get_put)
qed

lemma se_homo_Me_entry:
  assumes "0 \<le> l" "l \<le> N"
  shows "get (se_homo_Me rho w J N) l = rho * get w l * J"
proof -
  have N: "0 \<le> N + 1" using assms by simp
  have len: "N + 1 \<le> int (length (zeros (N + 1)))" using assms by simp
  show ?thesis
    unfolding se_homo_Me_def
    using fold_put_prefix[OF N len, of "\<lambda>i. rho * get w i * J"] assms by simp
qed

lemma sum_list_const: "(\<Sum>x\<leftarrow>xs. c) = real (length xs) * c" for c :: real
  by (induction xs) (simp_all add: algebra_simps)

lemma length_py_range_gen [simp]: "length (py_range a b) = nat (b - a)"
  by (simp add: py_range_def)

lemma se_homo_M_inv:
  assumes N: "0 \<le> N" and ne: "0 \<le> ne"
  shows "se_M_inv (\<lambda>e l. rho * get w l * J) N ne
           (fold (\<lambda>i. fold (se_M_add (se_homo_Me rho w J N) i) (py_range 0 (N + 1))) (py_range 1 (ne + 1))
              (- 1, zeros (2 * se_ng N ne)))"
    and "length (se_homo_M rho w J N ne) = nat (2 * se_ng N ne)"
proof -
  have "0 \<le> ne * N" using N ne by simp
  then have lt: "ne * N < int (length (zeros (2 * se_ng N ne)))"
    by (simp add: se_ng_def algebra_simps)
  have L: "se_M_inv (\<lambda>e l. rho * get w l * J) N ne
       (fold (\<lambda>i. fold (se_M_add (se_homo_Me rho w J N) i) (py_range 0 (N + 1))) (py_range 1 (ne + 1))
          (- 1, zeros (2 * se_ng N ne)))
     \<and> length (snd (fold (\<lambda>i. fold (se_M_add (se_homo_Me rho w J N) i) (py_range 0 (N + 1)))
                          (py_range 1 (ne + 1)) (- 1, zeros (2 * se_ng N ne))))
         = length (zeros (2 * se_ng N ne))"
    by (rule se_homo_M_loop[OF N ne lt se_M_inv_init]) (rule se_homo_Me_entry)
  show "se_M_inv (\<lambda>e l. rho * get w l * J) N ne
           (fold (\<lambda>i. fold (se_M_add (se_homo_Me rho w J N) i) (py_range 0 (N + 1))) (py_range 1 (ne + 1))
              (- 1, zeros (2 * se_ng N ne)))"
    using L by simp
  show "length (se_homo_M rho w J N ne) = nat (2 * se_ng N ne)"
    unfolding se_homo_M_def Let_def using L by simp
qed

lemma se_homo_M_entry:
  assumes N: "0 \<le> N" and ne: "0 \<le> ne" and g: "0 \<le> g" "g < 2 * se_ng N ne"
  shows "get (se_homo_M rho w J N ne) g = se_M_spec (\<lambda>e l. rho * get w l * J) N ne g"
proof -
  have "g < int (length (se_homo_M rho w J N ne))"
    using g by (simp add: se_homo_M_inv(2)[OF N ne])
  then show ?thesis
    using se_homo_M_inv(1)[OF N ne, of rho w J] g(1)
    unfolding se_M_inv_def se_homo_M_def Let_def by simp
qed

lemma se_homo_M_total:
  assumes N: "0 \<le> N" and ne: "0 \<le> ne"
  shows "sum_list (se_homo_M rho w J N ne)
           = rho * (real_of_int ne * (J * (\<Sum>l\<leftarrow>py_range 0 (N + 1). get w l)))"
proof -
  have "sum_list (se_homo_M rho w J N ne)
          = (\<Sum>e\<leftarrow>py_range 1 (ne + 1). \<Sum>l\<leftarrow>py_range 0 (N + 1). rho * get w l * J)"
    using se_homo_M_inv(1)[OF N ne, of rho w J]
    unfolding se_M_inv_def se_homo_M_def Let_def by simp
  also have "\<dots> = real_of_int ne * (\<Sum>l\<leftarrow>py_range 0 (N + 1). rho * get w l * J)"
    using ne by (simp add: sum_list_const)
  also have "(\<Sum>l\<leftarrow>py_range 0 (N + 1). rho * get w l * J)
               = rho * J * (\<Sum>l\<leftarrow>py_range 0 (N + 1). get w l)"
    by (simp add: sum_list_const_mult mult.commute mult.left_commute)
  finally show ?thesis by (simp add: algebra_simps)
qed

lemma se_hetero_Me_set_loop:
  assumes n: "0 \<le> n"
  shows "n < int (length Me0) \<Longrightarrow>
     fst (fold (se_hetero_Me_set rho w J) (py_range 0 (n + 1)) (m0, Me0)) = m0 + n + 1
   \<and> length (snd (fold (se_hetero_Me_set rho w J) (py_range 0 (n + 1)) (m0, Me0))) = length Me0
   \<and> (\<forall>l. 0 \<le> l \<and> l \<le> n \<longrightarrow>
         get (snd (fold (se_hetero_Me_set rho w J) (py_range 0 (n + 1)) (m0, Me0))) l
           = get rho (m0 + 1 + l) * get w l * J)"
  using n
proof (induction n rule: int_ge_induct)
  case base
  have r: "py_range 0 (0 + 1) = [0]" by (simp add: py_range_def)
  show ?case using base unfolding r by (auto simp: se_hetero_Me_set_def Let_def get_put)
next
  case (step n)
  define st where "st = fold (se_hetero_Me_set rho w J) (py_range 0 (n + 1)) (m0, Me0)"
  have lt: "n < int (length Me0)" using step.prems by simp
  have ih: "fst st = m0 + n + 1" "length (snd st) = length Me0"
    "\<And>l. 0 \<le> l \<Longrightarrow> l \<le> n \<Longrightarrow> get (snd st) l = get rho (m0 + 1 + l) * get w l * J"
    using step.IH[OF lt] unfolding st_def by auto
  have r: "py_range 0 (n + 1 + 1) = py_range 0 (n + 1) @ [n + 1]"
    using step.hyps by (intro py_range_snoc) simp
  have e: "fold (se_hetero_Me_set rho w J) (py_range 0 (n + 1 + 1)) (m0, Me0)
         = (m0 + n + 1 + 1, put (snd st) (n + 1) (get rho (m0 + n + 1 + 1) * get w (n + 1) * J))"
    unfolding r fold_append comp_def fold_simps st_def[symmetric]
    using ih(1) by (simp add: se_hetero_Me_set_def Let_def)
  have a: "m0 + n + 1 + 1 = m0 + 1 + (n + 1)" by simp
  show ?case
    unfolding e fst_conv snd_conv
    using step.hyps step.prems ih by (auto simp: get_put a)
qed

lemma se_hetero_M_loop:
  assumes N: "0 \<le> N" and m: "0 \<le> m"
    and inv0: "se_M_inv (se_hetero_MeF rho w J N) N 0 (- 1, M0)"
  shows "m * N < int (length M0) \<Longrightarrow> length Me0 = nat (N + 1) \<Longrightarrow>
     (let st = fold (se_hetero_M_elem rho w J N) (py_range 1 (m + 1)) ((- 1, Me0), (- 1, M0))
      in fst (fst st) = m * N - 1 \<and> length (snd (fst st)) = nat (N + 1)
       \<and> se_M_inv (se_hetero_MeF rho w J N) N m (snd st)
       \<and> length (snd (snd st)) = length M0)"
  using m
proof (induction m rule: int_ge_induct)
  case base
  then show ?case using inv0 by (simp add: py_range_def)
next
  case (step m)
  define st where "st = fold (se_hetero_M_elem rho w J N) (py_range 1 (m + 1)) ((- 1, Me0), (- 1, M0))"
  have "m * N \<le> (m + 1) * N" using N by (simp add: algebra_simps)
  then have lt: "m * N < int (length M0)" using step.prems(1) by linarith
  have ih: "fst (fst st) = m * N - 1" "length (snd (fst st)) = nat (N + 1)"
    "se_M_inv (se_hetero_MeF rho w J N) N m (snd st)"
    "length (snd (snd st)) = length M0"
    using step.IH[OF lt step.prems(2)] unfolding st_def Let_def by auto
  have r: "py_range 1 (m + 1 + 1) = py_range 1 (m + 1) @ [m + 1]"
    using step.hyps by (intro py_range_snoc) simp
  define mMe where "mMe = fold (se_hetero_Me_set rho w J) (py_range 0 (N + 1)) (fst st)"
  have ltN: "N < int (length (snd (fst st)))" using N ih(2) by simp
  have fs: "fst st = (fst (fst st), snd (fst st))" by simp
  have me: "fst mMe = m * N - 1 + N + 1" "length (snd mMe) = nat (N + 1)"
    "\<And>l. 0 \<le> l \<Longrightarrow> l \<le> N \<Longrightarrow> get (snd mMe) l = se_hetero_MeF rho w J N (m + 1) l"
    using se_hetero_Me_set_loop[OF N ltN, of rho w J "fst (fst st)"] ih(1) ih(2)
    unfolding mMe_def fs[symmetric] se_hetero_MeF_def by (auto simp: algebra_simps)
  have len: "(m + 1) * N < int (length (snd (snd st)))" using step.prems(1) ih(4) by simp
  have e: "fold (se_hetero_M_elem rho w J N) (py_range 1 (m + 1 + 1)) ((- 1, Me0), (- 1, M0))
         = ((fst mMe - 1, snd mMe), fold (se_M_add (snd mMe) (m + 1)) (py_range 0 (N + 1)) (snd st))"
    unfolding r fold_append comp_def fold_simps st_def[symmetric]
    by (simp add: se_hetero_M_elem_def Let_def mMe_def)
  have c1: "fst mMe - 1 = (m + 1) * N - 1" using me(1) by (simp add: algebra_simps)
  have c3: "se_M_inv (se_hetero_MeF rho w J N) N (m + 1)
              (fold (se_M_add (snd mMe) (m + 1)) (py_range 0 (N + 1)) (snd st))"
    by (rule se_M_inv_step(1)[OF ih(3) step.hyps N len me(3)])
  show ?case
    unfolding e Let_def fst_conv snd_conv using c1 me(2) c3 ih(4)
    by (simp add: length_se_M_add_fold)
qed

lemma se_hetero_M_inv:
  assumes N: "0 \<le> N" and ne: "0 \<le> ne"
  shows "se_M_inv (se_hetero_MeF rho w J N) N ne
           (snd (fold (se_hetero_M_elem rho w J N) (py_range 1 (ne + 1))
                   ((- 1, zeros (N + 1)), (- 1, zeros (2 * se_ng N ne)))))"
    and "length (se_hetero_M rho w J N ne) = nat (2 * se_ng N ne)"
proof -
  have "0 \<le> ne * N" using N ne by simp
  then have lt: "ne * N < int (length (zeros (2 * se_ng N ne)))"
    by (simp add: se_ng_def algebra_simps)
  have l: "length (zeros (N + 1)) = nat (N + 1)" by simp
  note L = se_hetero_M_loop[OF N ne se_M_inv_init lt l, unfolded Let_def]
  show "se_M_inv (se_hetero_MeF rho w J N) N ne
           (snd (fold (se_hetero_M_elem rho w J N) (py_range 1 (ne + 1))
                   ((- 1, zeros (N + 1)), (- 1, zeros (2 * se_ng N ne)))))"
    using L by simp
  show "length (se_hetero_M rho w J N ne) = nat (2 * se_ng N ne)"
    unfolding se_hetero_M_def Let_def using L by simp
qed

lemma se_hetero_M_entry:
  assumes N: "0 \<le> N" and ne: "0 \<le> ne" and g: "0 \<le> g" "g < 2 * se_ng N ne"
  shows "get (se_hetero_M rho w J N ne) g = se_M_spec (se_hetero_MeF rho w J N) N ne g"
proof -
  have "g < int (length (se_hetero_M rho w J N ne))"
    using g by (simp add: se_hetero_M_inv(2)[OF N ne])
  then show ?thesis
    using se_hetero_M_inv(1)[OF N ne, of rho w J] g(1)
    unfolding se_M_inv_def se_hetero_M_def Let_def by simp
qed

lemma se_hetero_M_total:
  assumes N: "0 \<le> N" and ne: "0 \<le> ne"
  shows "sum_list (se_hetero_M rho w J N ne)
           = (\<Sum>e\<leftarrow>py_range 1 (ne + 1). \<Sum>l\<leftarrow>py_range 0 (N + 1).
                get rho ((e - 1) * N + l) * get w l * J)"
  using se_hetero_M_inv(1)[OF N ne, of rho w J]
  unfolding se_M_inv_def se_hetero_M_def Let_def se_hetero_MeF_def by simp

lemma se_M_spec_first:
  assumes N: "1 \<le> N" and m: "1 \<le> m"
  shows "se_M_spec MeF N m 0 = MeF 1 0"
proof -
  have "se_M_spec MeF N m 0 = (\<Sum>e\<leftarrow>py_range 1 (m + 1). if e = 1 then MeF 1 0 else 0)"
    unfolding se_M_spec_def
  proof (rule arg_cong[where f = sum_list], rule map_cong[OF refl])
    fix e assume "e \<in> set (py_range 1 (m + 1))"
    then have e: "1 \<le> e" by simp
    have "(e - 1) * N \<le> 0 \<longleftrightarrow> e = 1"
    proof
      assume a: "(e - 1) * N \<le> 0"
      show "e = 1"
      proof (rule ccontr)
        assume "e \<noteq> 1"
        then have "1 \<le> e - 1" using e by simp
        then have "1 * 1 \<le> (e - 1) * N" using N by (intro mult_mono) auto
        then show False using a by simp
      qed
    qed simp
    moreover have "0 \<le> e * N" using e N by simp
    ultimately show "(if (e - 1) * N \<le> 0 \<and> 0 \<le> e * N then MeF e (0 - (e - 1) * N) else 0)
                   = (if e = 1 then MeF 1 0 else 0)"
      by auto
  qed
  also have "\<dots> = (\<Sum>e\<in>set (py_range 1 (m + 1)). if e = 1 then MeF 1 0 else 0)"
    by (rule sum_list_distinct_conv_sum_set) simp
  also have "\<dots> = MeF 1 0"
    using m by (simp add: sum.delta)
  finally show ?thesis .
qed

lemma se_hetero_M_first:
  assumes N: "1 \<le> N" and ne: "1 \<le> ne"
  shows "get (se_hetero_M rho w J N ne) 0 = get rho 0 * get w 0 * J"
proof -
  have "0 \<le> ne * N" using N ne by simp
  then have "0 < 2 * se_ng N ne" by (simp add: se_ng_def algebra_simps)
  then have "get (se_hetero_M rho w J N ne) 0 = se_M_spec (se_hetero_MeF rho w J N) N ne 0"
    using N ne by (intro se_hetero_M_entry) auto
  then show ?thesis
    unfolding se_M_spec_first[OF N ne] by (simp add: se_hetero_MeF_def)
qed

subsection \<open>Total mass and row sums of the finite-element matrices\<close>

lemma dot_ones: "length row = nat n \<Longrightarrow> dot row (ones n) = sum_list row"
proof (induction row arbitrary: n)
  case Nil
  then show ?case by (simp add: dot_def vmul_def ones_def)
next
  case (Cons a row)
  then have n: "nat n = Suc (nat (n - 1))" and l: "length row = nat (n - 1)" by auto
  have "dot row (ones (n - 1)) = sum_list row" by (rule Cons.IH[OF l])
  then show ?case
    unfolding dot_def vmul_def ones_def n by simp
qed

lemma fe_K_first_row:
  assumes nx: "2 \<le> nx"
  shows "get (fe_K nx mu h) 0 = (get mu 0 / get h 0) # replicate (nat nx - 1) 0"
proof (rule nth_equalityI)
  have sq: "square (nat nx) (fe_K nx mu h)" using nx by (intro square_fe_K) simp
  have row: "get (fe_K nx mu h) 0 = fe_K nx mu h ! 0" by (simp add: get_nth)
  have len: "length (get (fe_K nx mu h) 0) = nat nx"
    unfolding row using nx by (intro square_row[OF sq]) simp
  show "length (get (fe_K nx mu h) 0) = length ((get mu 0 / get h 0) # replicate (nat nx - 1) 0)"
    using nx by (simp add: len)
  fix j assume "j < length (get (fe_K nx mu h) 0)"
  then have j: "j < nat nx" by (simp add: len)
  have "get (fe_K nx mu h) 0 ! j = get2 (fe_K nx mu h) 0 (int j)"
    by (simp add: get2_def get_nth)
  also have "\<dots> = (if j = 0 then get mu 0 / get h 0 else 0)"
    using nx j by (subst fe_K_entry) auto
  also have "\<dots> = ((get mu 0 / get h 0) # replicate (nat nx - 1) 0) ! j"
    using j by (cases j) auto
  finally show "get (fe_K nx mu h) 0 ! j = ((get mu 0 / get h 0) # replicate (nat nx - 1) 0) ! j" .
qed

lemma fe_K_first_row_sum:
  assumes nx: "2 \<le> nx"
  shows "get (matvec (fe_K nx mu h) (ones nx)) 0 = get mu 0 / get h 0"
proof -
  have sq: "square (nat nx) (fe_K nx mu h)" using nx by (intro square_fe_K) simp
  have l: "0 < length (fe_K nx mu h)" using sq nx by (simp add: square_def)
  have "get (matvec (fe_K nx mu h) (ones nx)) 0 = dot (get (fe_K nx mu h) 0) (ones nx)"
    using l by (simp add: matvec_def get_nth)
  also have "\<dots> = sum_list (get (fe_K nx mu h) 0)"
    using nx by (intro dot_ones) (simp add: fe_K_first_row[OF nx])
  also have "\<dots> = get mu 0 / get h 0"
    by (simp add: fe_K_first_row[OF nx] sum_list_replicate)
  finally show ?thesis .
qed

lemma fe_M_first_row:
  assumes nx: "2 \<le> nx"
  shows "get (fe_M nx ro h) 0 = (get ro 0 * get h 0 / 3) # replicate (nat nx - 1) 0"
proof (rule nth_equalityI)
  have sq: "square (nat nx) (fe_M nx ro h)" using nx by (intro square_fe_M) simp
  have row: "get (fe_M nx ro h) 0 = fe_M nx ro h ! 0" by (simp add: get_nth)
  have len: "length (get (fe_M nx ro h) 0) = nat nx"
    unfolding row using nx by (intro square_row[OF sq]) simp
  show "length (get (fe_M nx ro h) 0) = length ((get ro 0 * get h 0 / 3) # replicate (nat nx - 1) 0)"
    using nx by (simp add: len)
  fix j assume "j < length (get (fe_M nx ro h) 0)"
  then have j: "j < nat nx" by (simp add: len)
  have "get (fe_M nx ro h) 0 ! j = get2 (fe_M nx ro h) 0 (int j)"
    by (simp add: get2_def get_nth)
  also have "\<dots> = (if j = 0 then get ro 0 * get h 0 / 3 else 0)"
    using nx j by (subst fe_M_entry) auto
  also have "\<dots> = ((get ro 0 * get h 0 / 3) # replicate (nat nx - 1) 0) ! j"
    using j by (cases j) auto
  finally show "get (fe_M nx ro h) 0 ! j = ((get ro 0 * get h 0 / 3) # replicate (nat nx - 1) 0) ! j" .
qed

text \<open>
  Claim C2 (total mass).  The sum of all entries of an assembled mass matrix is to equal the
  integral of the density over the domain.  The finite-element assembly of the W7 notebook is
  evaluated on the grid \<open>nx = 5\<close>, \<open>dx = 1\<close> with the uniform density \<open>2500\<close>: the domain has
  length \<open>4\<close> and mass \<open>10000\<close>, but the entries of \<open>M\<close> sum to \<open>25000 / 3\<close>.  The loops over
  \<open>range(1, nx-1)\<close> never write the four couplings \<open>M[0,1]\<close>, \<open>M[1,0]\<close>, \<open>M[nx-2,nx-1]\<close> and
  \<open>M[nx-1,nx-2]\<close>, each \<open>ro*h/6\<close> by the formula for \<open>M\<^sub>i\<^sub>j\<close> that the notebook states.
\<close>

theorem fe_mass_total_misses_boundary_couplings:
  "total (fe_M 5 (fe_ro 5 1 2500) (diff (arange_scaled 5 1))) = 25000 / 3
   \<and> total (fe_M 5 (fe_ro 5 1 2500) (diff (arange_scaled 5 1)))
       \<noteq> 2500 * (get (arange_scaled 5 1) 4 - get (arange_scaled 5 1) 0)"
  by code_simp

text \<open>
  Claim C4 (null space of the stiffness matrix).  \<open>K\<close> applied to the vector of ones is to be
  the zero vector.  The finite-element assembly of the W7 notebook is evaluated on the grid
  \<open>nx = 5\<close>, \<open>dx = 1\<close> with \<open>ro0 = 2500\<close> and \<open>vs = 3000\<close>, so that \<open>mu / h = 22500000000\<close>: the
  rows \<open>0\<close>, \<open>1\<close>, \<open>nx-2\<close> and \<open>nx-1\<close> of \<open>K\<close> do not sum to zero, because the loops over
  \<open>range(1, nx-1)\<close> never write \<open>K[0,1]\<close>, \<open>K[1,0]\<close>, \<open>K[nx-2,nx-1]\<close> and \<open>K[nx-1,nx-2]\<close>.
\<close>

theorem fe_stiffness_rows_do_not_sum_to_zero:
  "matvec (fe_K 5 (fe_mu 5 1 2500 3000) (diff (arange_scaled 5 1))) (ones 5)
     = [22500000000, 22500000000, 0, 22500000000, 22500000000]"
  by code_simp

subsection \<open>Null space of the spectral-element stiffness matrices\<close>

lemma sum_list_py_range: "(\<Sum>x\<leftarrow>py_range a b. f x) = (\<Sum>x\<in>{a..<b}. f x)"
  for f :: "int \<Rightarrow> real"
  by (simp add: sum_list_distinct_conv_sum_set)

lemma assembled_row_sum:
  assumes N: "1 \<le> N" and m: "0 \<le> m" and a: "0 \<le> a" "a \<le> m * N"
    and zero: "\<And>e a'. 1 \<le> e \<Longrightarrow> e \<le> m \<Longrightarrow> 0 \<le> a' \<Longrightarrow> a' \<le> N \<Longrightarrow>
                 (\<Sum>b'\<leftarrow>py_range 0 (N + 1). Kel e a' b') = 0"
  shows "(\<Sum>b\<leftarrow>py_range 0 (m * N + 1). assembled Kel N m a b) = 0"
proof -
  have "(\<Sum>b\<leftarrow>py_range 0 (m * N + 1). assembled Kel N m a b)
      = (\<Sum>b\<in>{0..<m * N + 1}. \<Sum>e\<in>{1..<m + 1}.
           if in_block N e a b then Kel e (a - (e - 1) * N) (b - (e - 1) * N) else 0)"
    unfolding assembled_def sum_list_py_range ..
  also have "\<dots> = (\<Sum>e\<in>{1..<m + 1}. \<Sum>b\<in>{0..<m * N + 1}.
           if in_block N e a b then Kel e (a - (e - 1) * N) (b - (e - 1) * N) else 0)"
    by (rule sum.swap)
  also have "\<dots> = (\<Sum>e\<in>{1..<m + 1}. 0)"
  proof (rule sum.cong[OF refl])
    fix e assume "e \<in> {1..<m + 1}"
    then have e: "1 \<le> e" "e \<le> m" by auto
    define off where "off = (e - 1) * N"
    have off0: "0 \<le> off" using e N by (simp add: off_def)
    have "e * N \<le> m * N" using e N by (intro mult_right_mono) auto
    then have offN: "off + N \<le> m * N" by (simp add: off_def algebra_simps)
    show "(\<Sum>b\<in>{0..<m * N + 1}.
             if in_block N e a b then Kel e (a - (e - 1) * N) (b - (e - 1) * N) else 0) = 0"
    proof (cases "off \<le> a \<and> a \<le> off + N")
      case False
      then have "\<not> in_block N e a b" for b
        by (auto simp: in_block_def off_def algebra_simps)
      then show ?thesis by simp
    next
      case True
      have blk: "in_block N e a b \<longleftrightarrow> off \<le> b \<and> b \<le> off + N" for b
        using True by (auto simp: in_block_def off_def algebra_simps)
      have "(\<Sum>b\<in>{0..<m * N + 1}.
               if in_block N e a b then Kel e (a - (e - 1) * N) (b - (e - 1) * N) else 0)
          = (\<Sum>b\<in>{0..<m * N + 1}. if b \<in> {off..off + N} then Kel e (a - off) (b - off) else 0)"
        by (rule sum.cong[OF refl]) (simp add: blk off_def)
      also have "\<dots> = (\<Sum>b\<in>{0..<m * N + 1} \<inter> {off..off + N}. Kel e (a - off) (b - off))"
        by (simp add: sum.inter_restrict)
      also have "{0..<m * N + 1} \<inter> {off..off + N} = {off..off + N}"
        using off0 offN by auto
      also have "(\<Sum>b\<in>{off..off + N}. Kel e (a - off) (b - off)) = (\<Sum>b'\<in>{0..<N + 1}. Kel e (a - off) b')"
        by (rule sum.reindex_bij_witness[where i = "\<lambda>b'. b' + off" and j = "\<lambda>b. b - off"]) auto
      also have "\<dots> = (\<Sum>b'\<leftarrow>py_range 0 (N + 1). Kel e (a - off) b')"
        by (simp add: sum_list_py_range)
      also have "\<dots> = 0"
        using True by (intro zero e) auto
      finally show ?thesis .
    qed
  qed
  finally show ?thesis by simp
qed

lemma se_homo_KeC_row_sum:
  assumes col: "\<And>k. 0 \<le> k \<Longrightarrow> k \<le> N \<Longrightarrow> (\<Sum>i\<leftarrow>py_range 0 (N + 1). get2 l1d i k) = 0"
  shows "(\<Sum>b\<leftarrow>py_range 0 (N + 1). se_homo_KeC mu w Ji l1d N a b) = 0"
proof -
  have "(\<Sum>b\<leftarrow>py_range 0 (N + 1). se_homo_KeC mu w Ji l1d N a b)
      = (\<Sum>b\<in>{0..<N + 1}. \<Sum>k\<in>{0..<N + 1}. mu * get w k * Ji * get2 l1d a k * get2 l1d b k)"
    unfolding se_homo_KeC_def sum_list_py_range ..
  also have "\<dots> = (\<Sum>k\<in>{0..<N + 1}. \<Sum>b\<in>{0..<N + 1}. mu * get w k * Ji * get2 l1d a k * get2 l1d b k)"
    by (rule sum.swap)
  also have "\<dots> = (\<Sum>k\<in>{0..<N + 1}. mu * get w k * Ji * get2 l1d a k * (\<Sum>b\<in>{0..<N + 1}. get2 l1d b k))"
    by (simp add: sum_distrib_left)
  also have "\<dots> = (\<Sum>k\<in>{0..<N + 1}. 0)"
  proof (rule sum.cong[OF refl])
    fix k assume "k \<in> {0..<N + 1}"
    then have "(\<Sum>b\<leftarrow>py_range 0 (N + 1). get2 l1d b k) = 0" by (intro col) auto
    then show "mu * get w k * Ji * get2 l1d a k * (\<Sum>b\<in>{0..<N + 1}. get2 l1d b k) = 0"
      by (simp add: sum_list_py_range)
  qed
  finally show ?thesis by simp
qed

lemma se_hetero_KeC_row_sum:
  assumes col: "\<And>k. 0 \<le> k \<Longrightarrow> k \<le> N \<Longrightarrow> (\<Sum>i\<leftarrow>py_range 0 (N + 1). get2 l1d i k) = 0"
  shows "(\<Sum>b\<leftarrow>py_range 0 (N + 1). se_hetero_KeC mu w Ji J l1d N xe a b) = 0"
proof -
  have "(\<Sum>b\<leftarrow>py_range 0 (N + 1). se_hetero_KeC mu w Ji J l1d N xe a b)
      = (\<Sum>b\<in>{0..<N + 1}. \<Sum>k\<in>{- 1..<N}.
           get mu (k + 1 + xe) * get w (k + 1) * Ji ^ 2 * J * get2 l1d a (k + 1) * get2 l1d b (k + 1))"
    unfolding se_hetero_KeC_def sum_list_py_range ..
  also have "\<dots> = (\<Sum>k\<in>{- 1..<N}. \<Sum>b\<in>{0..<N + 1}.
           get mu (k + 1 + xe) * get w (k + 1) * Ji ^ 2 * J * get2 l1d a (k + 1) * get2 l1d b (k + 1))"
    by (rule sum.swap)
  also have "\<dots> = (\<Sum>k\<in>{- 1..<N}. get mu (k + 1 + xe) * get w (k + 1) * Ji ^ 2 * J * get2 l1d a (k + 1)
                       * (\<Sum>b\<in>{0..<N + 1}. get2 l1d b (k + 1)))"
    by (simp add: sum_distrib_left)
  also have "\<dots> = (\<Sum>k\<in>{- 1..<N}. 0)"
  proof (rule sum.cong[OF refl])
    fix k assume "k \<in> {- 1..<N}"
    then have "(\<Sum>b\<leftarrow>py_range 0 (N + 1). get2 l1d b (k + 1)) = 0" by (intro col) auto
    then show "get mu (k + 1 + xe) * get w (k + 1) * Ji ^ 2 * J * get2 l1d a (k + 1)
                 * (\<Sum>b\<in>{0..<N + 1}. get2 l1d b (k + 1)) = 0"
      by (simp add: sum_list_py_range)
  qed
  finally show ?thesis by simp
qed

lemma sum_list_get:
  "sum_list xs = (\<Sum>b\<leftarrow>py_range 0 (int (length xs)). get xs b)" for xs :: vec
proof (induction xs rule: rev_induct)
  case Nil
  then show ?case by (simp add: py_range_def)
next
  case (snoc x xs)
  have r: "py_range 0 (int (length (xs @ [x]))) = py_range 0 (int (length xs)) @ [int (length xs)]"
    using py_range_snoc[of 0 "int (length xs)"] by (simp add: add.commute)
  have "(\<Sum>b\<leftarrow>py_range 0 (int (length xs)). get (xs @ [x]) b)
      = (\<Sum>b\<leftarrow>py_range 0 (int (length xs)). get xs b)"
    by (rule arg_cong[where f = sum_list], rule map_cong) (auto simp: get_nth nth_append)
  then show ?case
    unfolding r using snoc.IH by (simp add: get_nth)
qed

lemma matvec_ones_entry:
  assumes sq: "square (nat n) K" and a: "0 \<le> a" "a < n"
  shows "get (matvec K (ones n)) a = (\<Sum>b\<leftarrow>py_range 0 n. get2 K a b)"
proof -
  have lK: "length K = nat n" using sq by (rule square_length)
  have row: "length (K ! nat a) = nat n" using sq a by (intro square_row) auto
  have "get (matvec K (ones n)) a = dot (K ! nat a) (ones n)"
    using a lK by (simp add: get_nth nth_matvec)
  also have "\<dots> = sum_list (K ! nat a)" using row by (rule dot_ones)
  also have "\<dots> = (\<Sum>b\<leftarrow>py_range 0 (int (length (K ! nat a))). get (K ! nat a) b)"
    by (rule sum_list_get)
  also have "\<dots> = (\<Sum>b\<leftarrow>py_range 0 n. get2 K a b)"
    using a by (simp add: row get2_def get_nth)
  finally show ?thesis .
qed

lemma null_space_of_assembled:
  assumes N: "1 \<le> N" and ne: "1 \<le> ne" and sq: "square (nat (se_ng N ne)) K"
    and ent: "\<And>a b. 0 \<le> a \<Longrightarrow> a < se_ng N ne \<Longrightarrow> 0 \<le> b \<Longrightarrow> b < se_ng N ne \<Longrightarrow>
                get2 K a b = assembled Kel N ne a b"
    and zero: "\<And>e a'. 1 \<le> e \<Longrightarrow> e \<le> ne \<Longrightarrow> 0 \<le> a' \<Longrightarrow> a' \<le> N \<Longrightarrow>
                 (\<Sum>b'\<leftarrow>py_range 0 (N + 1). Kel e a' b') = 0"
  shows "matvec K (ones (se_ng N ne)) = zeros (se_ng N ne)"
proof (rule nth_equalityI)
  have ng: "se_ng N ne = ne * N + 1" by (simp add: se_ng_def algebra_simps)
  have lK: "length K = nat (se_ng N ne)" using sq by (rule square_length)
  show "length (matvec K (ones (se_ng N ne))) = length (zeros (se_ng N ne))"
    by (simp add: lK)
  fix i assume "i < length (matvec K (ones (se_ng N ne)))"
  then have i: "i < nat (se_ng N ne)" by (simp add: lK)
  then have a: "0 \<le> int i" "int i < se_ng N ne" by auto
  have ne0: "0 \<le> ne" using ne by simp
  have "matvec K (ones (se_ng N ne)) ! i = get (matvec K (ones (se_ng N ne))) (int i)"
    by (simp add: get_nth)
  also have "\<dots> = (\<Sum>b\<leftarrow>py_range 0 (se_ng N ne). get2 K (int i) b)"
    by (rule matvec_ones_entry[OF sq a])
  also have "\<dots> = (\<Sum>b\<leftarrow>py_range 0 (se_ng N ne). assembled Kel N ne (int i) b)"
    by (rule arg_cong[where f = sum_list], rule map_cong) (auto simp: ent a)
  also have "\<dots> = 0"
    unfolding ng using a by (intro assembled_row_sum[OF N ne0 _ _ zero]) (auto simp: ng)
  finally show "matvec K (ones (se_ng N ne)) ! i = zeros (se_ng N ne) ! i"
    using i by (simp add: zeros_def)
qed

lemma se_stiffness_null_space:
  assumes N: "1 \<le> N" and ne: "1 \<le> ne"
    and col: "\<And>k. 0 \<le> k \<Longrightarrow> k \<le> N \<Longrightarrow> (\<Sum>i\<leftarrow>py_range 0 (N + 1). get2 l1d i k) = 0"
  shows "matvec (se_homo_K (se_homo_Ke mu w Ji l1d N) N ne) (ones (se_ng N ne)) = zeros (se_ng N ne)"
    and "matvec (se_hetero_K mus w Ji J l1d N ne) (ones (se_ng N ne)) = zeros (se_ng N ne)"
proof -
  have N0: "0 \<le> N" and ne0: "0 \<le> ne" using N ne by simp_all
  have ng: "0 \<le> se_ng N ne" by (rule se_ng_nonneg[OF N0 ne])
  show "matvec (se_homo_K (se_homo_Ke mu w Ji l1d N) N ne) (ones (se_ng N ne)) = zeros (se_ng N ne)"
  proof (rule null_space_of_assembled[OF N ne, where Kel = "\<lambda>e. se_homo_KeC mu w Ji l1d N"])
    show "square (nat (se_ng N ne)) (se_homo_K (se_homo_Ke mu w Ji l1d N) N ne)"
      using N0 ng by (intro square_se_homo_K) auto
    show "get2 (se_homo_K (se_homo_Ke mu w Ji l1d N) N ne) a b
            = assembled (\<lambda>e. se_homo_KeC mu w Ji l1d N) N ne a b"
      if "0 \<le> a" "a < se_ng N ne" "0 \<le> b" "b < se_ng N ne" for a b
    proof -
      have "assembled (\<lambda>e. get2 (se_homo_Ke mu w Ji l1d N)) N ne a b
          = assembled (\<lambda>e. se_homo_KeC mu w Ji l1d N) N ne a b"
        by (rule assembled_cong) (rule se_homo_Ke_entry)
      then show ?thesis using se_homo_K_entry[OF N ne0 that] by simp
    qed
    show "(\<Sum>b'\<leftarrow>py_range 0 (N + 1). se_homo_KeC mu w Ji l1d N a' b') = 0" for a'
      by (rule se_homo_KeC_row_sum[OF col])
  qed
  show "matvec (se_hetero_K mus w Ji J l1d N ne) (ones (se_ng N ne)) = zeros (se_ng N ne)"
  proof (rule null_space_of_assembled[OF N ne, where Kel = "se_hetero_Kel mus w Ji J l1d N"])
    show "square (nat (se_ng N ne)) (se_hetero_K mus w Ji J l1d N ne)"
      by (rule square_se_hetero_K[OF N0 ne0 ng])
    show "get2 (se_hetero_K mus w Ji J l1d N ne) a b = assembled (se_hetero_Kel mus w Ji J l1d N) N ne a b"
      if "0 \<le> a" "a < se_ng N ne" "0 \<le> b" "b < se_ng N ne" for a b
      by (rule se_hetero_K_entry[OF N0 ne0 that])
    show "(\<Sum>b'\<leftarrow>py_range 0 (N + 1). se_hetero_Kel mus w Ji J l1d N e a' b') = 0" for e a'
      unfolding se_hetero_Kel_def by (rule se_hetero_KeC_row_sum[OF col])
  qed
qed

subsection \<open>Material values\<close>

lemma del_smul: "del j (smul c r) = smul c (del j r)"
  by (simp add: del_def smul_def take_map drop_map)

lemma det_smulm: "det (smulm c A) = c ^ length A * det A"
proof (induction A rule: det.induct)
  case 1
  then show ?case by (simp add: smulm_def)
next
  case (2 r rs)
  have m: "map (del j) (smulm c rs) = smulm c (map (del j) rs)" for j
    by (simp add: smulm_def del_smul)
  have "det (smulm c (r # rs))
      = (\<Sum>j\<leftarrow>[0..<length r]. (- 1) ^ j * smul c r ! j * det (map (del j) (smulm c rs)))"
    by (simp add: smulm_def)
  also have "\<dots> = (\<Sum>j\<leftarrow>[0..<length r]. (- 1) ^ j * smul c r ! j * det (smulm c (map (del j) rs)))"
    unfolding m ..
  also have "\<dots> = (\<Sum>j\<leftarrow>[0..<length r]. c ^ length (r # rs) * ((- 1) ^ j * r ! j * det (map (del j) rs)))"
  proof (rule arg_cong[where f = sum_list], rule map_cong[OF refl])
    fix j assume j: "j \<in> set [0..<length r]"
    then have "smul c r ! j = c * r ! j" by (simp add: nth_smul)
    then show "(- 1) ^ j * smul c r ! j * det (smulm c (map (del j) rs))
             = c ^ length (r # rs) * ((- 1) ^ j * r ! j * det (map (del j) rs))"
      using "2.IH"[OF j] by simp
  qed
  also have "\<dots> = c ^ length (r # rs) * det (r # rs)"
    by (simp add: sum_list_const_mult)
  finally show ?case .
qed

lemma det_zero_first_row:
  assumes "\<And>j. j < length r \<Longrightarrow> r ! j = 0"
  shows "det (r # rs) = 0"
proof -
  have "det (r # rs) = (\<Sum>j\<leftarrow>[0..<length r]. 0)"
    unfolding det.simps
    by (rule arg_cong[where f = sum_list], rule map_cong[OF refl]) (simp add: assms)
  then show ?thesis by simp
qed

lemma square_ext:
  assumes A: "square n A" and B: "square n B"
    and e: "\<And>a b. 0 \<le> a \<Longrightarrow> a < int n \<Longrightarrow> 0 \<le> b \<Longrightarrow> b < int n \<Longrightarrow> get2 A a b = get2 B a b"
  shows "A = B"
proof (rule nth_equalityI)
  show "length A = length B" using A B by (simp add: square_length)
  fix i assume "i < length A"
  then have i: "i < n" using A by (simp add: square_length)
  show "A ! i = B ! i"
  proof (rule nth_equalityI)
    show "length (A ! i) = length (B ! i)" using square_row[OF A i] square_row[OF B i] by simp
    fix j assume "j < length (A ! i)"
    then have j: "j < n" using square_row[OF A i] by simp
    show "A ! i ! j = B ! i ! j"
      using e[of "int i" "int j"] i j by (simp add: get2_nth)
  qed
qed

lemma get_map_uminus:
  "0 \<le> i \<Longrightarrow> i < int (length xs) \<Longrightarrow> get (map uminus xs) i = - get xs i" for xs :: vec
  by (simp add: get_nth)

lemma get2_smulm:
  assumes "square n A" "0 \<le> a" "a < int n" "0 \<le> b" "b < int n"
  shows "get2 (smulm c A) a b = c * get2 A a b"
proof -
  have "nat a < n" "nat b < n" using assms by auto
  then show ?thesis
    using assms square_row[OF assms(1), of "nat a"]
    by (simp add: get2_nth nth_smulm nth_smul square_length)
qed

lemma fe_M_neg:
  assumes nx: "2 \<le> nx" and ro: "length ro = nat nx"
  shows "fe_M nx (map uminus ro) h = smulm (- 1) (fe_M nx ro h)"
proof (rule square_ext[where n = "nat nx"])
  have nx0: "0 \<le> nx" using nx by simp
  show "square (nat nx) (fe_M nx (map uminus ro) h)" by (rule square_fe_M[OF nx0])
  show "square (nat nx) (smulm (- 1) (fe_M nx ro h))" by (intro square_smulm square_fe_M nx0)
  fix a b assume ab: "0 \<le> a" "a < int (nat nx)" "0 \<le> b" "b < int (nat nx)"
  then have ab': "a < nx" "b < nx" using nx by auto
  have g: "get (map uminus ro) i = - get ro i" if "0 \<le> i" "i < nx" for i
    using that ro by (intro get_map_uminus) auto
  have "get2 (fe_M nx (map uminus ro) h) a b = - get2 (fe_M nx ro h) a b"
    unfolding fe_M_entry[OF nx ab(1) ab'(1) ab(3) ab'(2)] fe_M_val_def
    using nx ab ab' by (auto simp: g field_simps)
  then show "get2 (fe_M nx (map uminus ro) h) a b = get2 (smulm (- 1) (fe_M nx ro h)) a b"
    using get2_smulm[OF square_fe_M[OF nx0] ab, of "- 1" ro h] by simp
qed

lemma fe_K_neg:
  assumes nx: "2 \<le> nx" and mu: "length mu = nat nx"
  shows "fe_K nx (map uminus mu) h = smulm (- 1) (fe_K nx mu h)"
proof (rule square_ext[where n = "nat nx"])
  have nx0: "0 \<le> nx" using nx by simp
  show "square (nat nx) (fe_K nx (map uminus mu) h)" by (rule square_fe_K[OF nx0])
  show "square (nat nx) (smulm (- 1) (fe_K nx mu h))" by (intro square_smulm square_fe_K nx0)
  fix a b assume ab: "0 \<le> a" "a < int (nat nx)" "0 \<le> b" "b < int (nat nx)"
  then have ab': "a < nx" "b < nx" using nx by auto
  have g: "get (map uminus mu) i = - get mu i" if "0 \<le> i" "i < nx" for i
    using that mu by (intro get_map_uminus) auto
  have "get2 (fe_K nx (map uminus mu) h) a b = - get2 (fe_K nx mu h) a b"
    unfolding fe_K_entry[OF nx ab(1) ab'(1) ab(3) ab'(2)] fe_K_val_def
    using nx ab ab' by (auto simp: g field_simps)
  then show "get2 (fe_K nx (map uminus mu) h) a b = get2 (smulm (- 1) (fe_K nx mu h)) a b"
    using get2_smulm[OF square_fe_K[OF nx0] ab, of "- 1" mu h] by simp
qed

lemma det_fe_M_neg:
  assumes nx: "2 \<le> nx" and ro: "length ro = nat nx"
  shows "det (fe_M nx (map uminus ro) h) = 0 \<longleftrightarrow> det (fe_M nx ro h) = 0"
  unfolding fe_M_neg[OF nx ro] det_smulm by simp

lemma det_fe_M_zero_density:
  assumes nx: "2 \<le> nx" and z: "get ro 0 = 0"
  shows "det (fe_M nx ro h) = 0"
proof -
  have nx0: "0 \<le> nx" using nx by simp
  have sq: "square (nat nx) (fe_M nx ro h)" by (rule square_fe_M[OF nx0])
  then have "fe_M nx ro h \<noteq> []" using nx by (auto simp: square_def)
  then obtain r rs where M: "fe_M nx ro h = r # rs" by (cases "fe_M nx ro h") auto
  have "r = get (fe_M nx ro h) 0" by (simp add: M get_def)
  then have r: "r = 0 # replicate (nat nx - 1) 0"
    unfolding fe_M_first_row[OF nx] z by simp
  have "r ! j = 0" if "j < length r" for j
    using that unfolding r by (cases j) auto
  then show ?thesis unfolding M by (rule det_zero_first_row)
qed

lemma fe_assembly_shape:
  assumes "2 \<le> nx" and "length ro = nat nx" and "length mu = nat nx" and "length h = nat (nx - 1)"
  shows "fe_assembly nx ro mu h
           = (case linalg_inv (fe_M nx ro h) of Inl e \<Rightarrow> Inl e
              | Inr Minv \<Rightarrow> Inr (fe_M nx ro h, Minv, fe_K nx mu h))"
  using assms by (auto simp: fe_assembly_def split: sum.splits)

lemma isl_linalg_inv: "isl (linalg_inv A) \<longleftrightarrow> det A = 0"
  by (simp add: linalg_inv_def)

text \<open>
  Claim C6 (material validation), as stated: a material input with a non-positive density or
  shear modulus makes the assembly fail with an \<open>InvalidMaterial\<close> error and produce no
  matrices.  On the three-point grid with density \<open>-1\<close> and shear modulus \<open>-1\<close> everywhere the
  finite-element cells run through and return \<open>M\<close>, \<open>Minv\<close> and \<open>K\<close>, and the spectral-element
  mass cell returns its vector for the density \<open>-1\<close>.
\<close>

theorem negative_material_is_assembled:
  "fe_assembly 3 [- 1, - 1, - 1] [- 1, - 1, - 1] [1, 1]
     = Inr ([[- 1 / 3, 0, 0], [0, - 2 / 3, 0], [0, 0, - 1 / 3]],
            [[- 3, 0, 0], [0, - 3 / 2, 0], [0, 0, - 3]],
            [[- 1, 0, 0], [0, - 2, 0], [0, 0, - 1]])
   \<and> se_hetero_mass_assembly [- 1, - 1, - 1] [1 / 3, 4 / 3, 1 / 3] 1 2 1
     = Inr [- 1 / 3, - 4 / 3, - 1 / 3, 0, 0, 0]"
  by code_simp

text \<open>
  Claim C6, amended: the assembly cells never look at the sign of the material, and there is
  no \<open>InvalidMaterial\<close> error.  For inputs of the right shape (with positive element sizes
  \<open>h\<close>, as \<open>np.diff(x)\<close> gives them) the finite-element cells fail only
  in \<open>np.linalg.inv\<close>, with \<open>LinAlgError\<close> when the assembled mass matrix is singular, and
  otherwise return the matrices.  Negating every density and shear modulus negates \<open>M\<close> and \<open>K\<close>
  and changes neither a failure nor a success, so that negative values are assembled like
  positive ones; the density \<open>ro[0] = 0\<close> makes the mass matrix singular.  The mass cell of the
  heterogeneous spectral-element notebook returns its vector for every input of the right
  shape.  The entries follow the material values: \<open>M[0,0] = ro[0]*h[0]/3\<close> and
  \<open>K[0,0] = mu[0]/h[0]\<close> in the finite-element notebook, \<open>M[0] = rho[0]*w[0]*J\<close> in the
  spectral-element notebook.
\<close>

theorem assembly_ignores_material_sign:
  assumes "2 \<le> nx" and "length ro = nat nx" and "length mu = nat nx" and "length h = nat (nx - 1)"
    and "1 \<le> N" and "1 \<le> ne" and "length rho = nat (ne * N + 1)" and "length w = nat (N + 1)"
    and "list_all (\<lambda>x. 0 < x) h"
  shows "fe_assembly nx ro mu h
           = (case linalg_inv (fe_M nx ro h) of Inl e \<Rightarrow> Inl e
              | Inr Minv \<Rightarrow> Inr (fe_M nx ro h, Minv, fe_K nx mu h))
       \<and> isl (linalg_inv (fe_M nx ro h)) = (det (fe_M nx ro h) = 0)
       \<and> isl (fe_assembly nx (map uminus ro) (map uminus mu) h) = isl (fe_assembly nx ro mu h)
       \<and> fe_M nx (map uminus ro) h = smulm (- 1) (fe_M nx ro h)
       \<and> fe_K nx (map uminus mu) h = smulm (- 1) (fe_K nx mu h)
       \<and> fe_assembly nx (put ro 0 0) mu h = Inl LinAlgError
       \<and> get2 (fe_M nx ro h) 0 0 = get ro 0 * get h 0 / 3
       \<and> get2 (fe_K nx mu h) 0 0 = get mu 0 / get h 0
       \<and> se_hetero_mass_assembly rho w J N ne = Inr (se_hetero_M rho w J N ne)
       \<and> get (se_hetero_M rho w J N ne) 0 = get rho 0 * get w 0 * J"
proof -
  note sh = fe_assembly_shape[OF assms(1-4)]
  have lro: "length (map uminus ro) = nat nx" and lmu: "length (map uminus mu) = nat nx"
    using assms(2,3) by simp_all
  have i1: "isl (fe_assembly nx ro mu h) \<longleftrightarrow> det (fe_M nx ro h) = 0"
    unfolding sh by (simp add: linalg_inv_def)
  have i2: "isl (fe_assembly nx (map uminus ro) (map uminus mu) h)
              \<longleftrightarrow> det (fe_M nx (map uminus ro) h) = 0"
    unfolding fe_assembly_shape[OF assms(1) lro lmu assms(4)] by (simp add: linalg_inv_def)
  have a: "isl (fe_assembly nx (map uminus ro) (map uminus mu) h) = isl (fe_assembly nx ro mu h)"
    unfolding i1 i2 by (rule det_fe_M_neg[OF assms(1,2)])
  have lz: "length (put ro 0 0) = nat nx" using assms(2) by simp
  have "get (put ro 0 0) 0 = 0" using assms(1,2) by (simp add: get_put)
  then have "det (fe_M nx (put ro 0 0) h) = 0" by (rule det_fe_M_zero_density[OF assms(1)])
  then have z: "fe_assembly nx (put ro 0 0) mu h = Inl LinAlgError"
    unfolding fe_assembly_shape[OF assms(1) lz assms(3,4)] by (simp add: linalg_inv_def)
  have b: "get2 (fe_M nx ro h) 0 0 = get ro 0 * get h 0 / 3"
    using assms(1) by (subst fe_M_entry) auto
  have c: "get2 (fe_K nx mu h) 0 0 = get mu 0 / get h 0"
    using assms(1) by (subst fe_K_entry) auto
  have nn: "0 \<le> ne * N" using assms(5,6) by simp
  have ng: "se_ng N ne = ne * N + 1" by (simp add: se_ng_def algebra_simps)
  have d: "se_hetero_mass_assembly rho w J N ne = Inr (se_hetero_M rho w J N ne)"
  proof -
    have v: "\<not> (N + 1 < 0 \<or> 2 * (ne * N + 1) < 0)" using assms(5) nn by auto
    have lr: "int (length rho) = ne * N + 1" using assms(7) nn by simp
    have lw: "int (length w) = N + 1" using assms(8) assms(5) by simp
    have i: "\<not> (1 \<le> ne \<and> 0 \<le> N \<and> (int (length rho) \<le> ne * N \<or> int (length w) \<le> N))"
      unfolding lr lw by simp
    show ?thesis
      unfolding se_hetero_mass_assembly_def ng if_not_P[OF v] if_not_P[OF i] ..
  qed
  have e: "get (se_hetero_M rho w J N ne) 0 = get rho 0 * get w 0 * J"
    using assms(5,6) by (rule se_hetero_M_first)
  show ?thesis
    using sh isl_linalg_inv[of "fe_M nx ro h"] a fe_M_neg[OF assms(1,2), of h]
      fe_K_neg[OF assms(1,3), of h] z b c d e
    by blast
qed

theorem assembly_ignores_material_sign_witness:
  "fe_assembly 3 [1, 1, 1] [1, 1, 1] [1, 1]
     = Inr ([[1 / 3, 0, 0], [0, 2 / 3, 0], [0, 0, 1 / 3]],
            [[3, 0, 0], [0, 3 / 2, 0], [0, 0, 3]],
            [[1, 0, 0], [0, 2, 0], [0, 0, 1]])
   \<and> \<not> isl (fe_assembly 3 (map uminus [1, 1, 1]) (map uminus [1, 1, 1]) [1, 1])
   \<and> fe_M 3 (map uminus [1, 1, 1]) [1, 1] = [[- 1 / 3, 0, 0], [0, - 2 / 3, 0], [0, 0, - 1 / 3]]
   \<and> fe_K 3 (map uminus [1, 1, 1]) [1, 1] = [[- 1, 0, 0], [0, - 2, 0], [0, 0, - 1]]
   \<and> fe_assembly 3 (put [1, 1, 1] 0 0) [1, 1, 1] [1, 1] = Inl LinAlgError
   \<and> se_hetero_mass_assembly [- 1, - 1, - 1] [1 / 3, 4 / 3, 1 / 3] 1 2 1
        = Inr (se_hetero_M [- 1, - 1, - 1] [1 / 3, 4 / 3, 1 / 3] 1 2 1)
   \<and> get (se_hetero_M [- 1, - 1, - 1] [1 / 3, 4 / 3, 1 / 3] 1 2 1) 0 = - 1 / 3"
proof -
  have h: "(2::int) \<le> 3" "length [1, 1, 1 :: real] = nat 3" "length [1, 1, 1 :: real] = nat 3"
    "length [1, 1 :: real] = nat (3 - 1)" "(1::int) \<le> 2" "(1::int) \<le> 1"
    "length [- 1, - 1, - 1 :: real] = nat (1 * 2 + 1)" "length [1 / 3, 4 / 3, 1 / 3 :: real] = nat (2 + 1)"
    "list_all (\<lambda>x. 0 < x) [1, 1 :: real]"
    by simp_all
  have M: "fe_M 3 [1, 1, 1] [1, 1] = [[1 / 3, 0, 0], [0, 2 / 3, 0], [0, 0, 1 / 3]]"
    by code_simp
  have K: "fe_K 3 [1, 1, 1] [1, 1] = [[1, 0, 0], [0, 2, 0], [0, 0, 1]]"
    by code_simp
  have I: "linalg_inv [[1 / 3, 0, 0], [0, 2 / 3, 0], [0, 0, 1 / 3]]
             = Inr [[3, 0, 0], [0, 3 / 2, 0], [0, 0, 3]]"
    by code_simp
  show ?thesis
    using assembly_ignores_material_sign[OF h, of 1]
    unfolding M K I by (simp add: smulm_def smul_def get_def pos_def)
qed

end
